theory Spec2Isabelle
  imports Complex_Main "HOL-Library.AList" "HOL-Library.Sublist"
begin

section \<open>Exceptions and Python values\<close>

text \<open>
  The three exception classes that \<^verbatim>\<open>expectations.py\<close> can let escape. Each value
  carries the text that \<^verbatim>\<open>str(e)\<close> renders, which is what the f-string of the
  catch-all handler interpolates. \<open>PyException\<close> stands for every other Python
  exception (AttributeError, KeyError, an error of a collaborator, ...).
\<close>

datatype exn =
    SparkExpectationsMiscException string
  | SparkExpectationsDataframeNotReturnedException string
  | PyException string

fun exn_str :: "exn \<Rightarrow> string" where
  "exn_str (SparkExpectationsMiscException m) = m"
| "exn_str (SparkExpectationsDataframeNotReturnedException m) = m"
| "exn_str (PyException m) = m"

fun is_misc :: "exn \<Rightarrow> bool" where
  "is_misc (SparkExpectationsMiscException m) = True"
| "is_misc (SparkExpectationsDataframeNotReturnedException m) = False"
| "is_misc (PyException m) = False"

fun is_dataframe_not_returned :: "exn \<Rightarrow> bool" where
  "is_dataframe_not_returned (SparkExpectationsDataframeNotReturnedException m) = True"
| "is_dataframe_not_returned (SparkExpectationsMiscException m) = False"
| "is_dataframe_not_returned (PyException m) = False"

text \<open>
  What the wrapped producer \<^verbatim>\<open>func\<close> hands back: a Spark dataframe, or any other
  object. For another object the model keeps the one thing the wrapper does with it
  before the \<^verbatim>\<open>isinstance\<close> test, the call \<^verbatim>\<open>_df.count()\<close>: it raises (for \<^verbatim>\<open>None\<close>
  an AttributeError, for a list a TypeError) or returns a number.
\<close>

datatype 'd produced =
    DataFrame 'd
  | OtherObject "exn + int"

text \<open>Values of the configuration dictionary \<^verbatim>\<open>spark_conf: Dict[str, Any]\<close>.\<close>

datatype pyval =
    PyNone
  | PyBool bool
  | PyInt int
  | PyStr string
  | PyObject string

section \<open>The run context\<close>

datatype stage = Source_agg_dq | Source_query_dq | Row_dq | Final_agg_dq | Final_query_dq

datatype rule_type = Agg_dq_rule | Query_dq_rule | Row_dq_rule

fun rule_type_name :: "stage \<Rightarrow> rule_type" where
  "rule_type_name Source_agg_dq = Agg_dq_rule"
| "rule_type_name Source_query_dq = Query_dq_rule"
| "rule_type_name Row_dq = Row_dq_rule"
| "rule_type_name Final_agg_dq = Agg_dq_rule"
| "rule_type_name Final_query_dq = Query_dq_rule"

type_synonym dq_result = "(string \<times> string) list list"

text \<open>
  The fields of \<^verbatim>\<open>SparkExpectationsContext\<close> that the wrapper reads or writes. The
  five stage statuses and the five start and end times are indexed by the stage.
  Times are readings of a logical clock.
\<close>

record se_context =
  table_name :: string
  dq_run_status :: string
  stage_status :: "stage \<Rightarrow> string"
  input_count :: int
  error_count :: int
  output_count :: int
  source_agg_dq_result :: "dq_result option"
  final_agg_dq_result :: "dq_result option"
  source_query_dq_result :: "dq_result option"
  final_query_dq_result :: "dq_result option"
  summarised_row_dq_res :: "dq_result option"
  start_time :: "stage \<Rightarrow> nat option"
  end_time :: "stage \<Rightarrow> nat option"
  error_drop_threshold :: int

text \<open>
  Modelled from the spec: the default argument of the five \<^verbatim>\<open>set_*_dq_status()\<close>
  setters lives in \<^verbatim>\<open>context.py\<close>, which is not among the sources. The spec names the
  status of a stage that did not run \<open>Skipped\<close> ("must report Skipped", "an empty rule
  list for a stage yields status Skipped").
\<close>

definition default_stage_status :: string where
  "default_stage_status = ''Skipped''"

section \<open>Collaborators and the observable trace\<close>

text \<open>
  Every call the wrapper makes on a collaborator is written to a trace, in program
  order, so that claims about what ran, on what and in which order are claims about
  a list.
\<close>

datatype 'd event =
    Set_status stage string
  | Set_start_time stage
  | Set_end_time stage
  | Func_process stage "'d option" "(int \<times> int) option"
  | Create_or_replace_temp_view 'd string
  | Notify_on_exceeds_of_error_threshold
  | Spark_sql_drop_table string
  | Spark_sql_select string
  | Write_df_to_table "'d option" string
  | Clear_cache

record 'd world =
  ctx :: se_context
  trace :: "'d event list"
  clock :: nat

type_synonym 'd stage_result = "'d option \<times> dq_result option \<times> int \<times> string"

text \<open>
  The collaborators whose code is not among the sources are parameters of the model.
  \<open>func_process\<close> is the closure returned by \<^verbatim>\<open>execute_dq_process\<close>: it receives the
  dataset, the rule type name, the stage flag that is set and, for the two final
  stages, the keyword arguments \<^verbatim>\<open>error_count\<close> and \<^verbatim>\<open>output_count\<close>; it raises or
  returns the 4-tuple the wrapper unpacks. \<open>write_df_to_table\<close> returns the exception
  it raised, if any. \<open>get_output_percentage\<close> is the context property of that name,
  which the spec derives from \<open>input_count\<close> and \<open>output_count\<close>; it may raise. The
  two \<open>default_*\<close> fields are default arguments of context setters on which the spec
  is silent. Operations of Spark itself on a genuine dataframe (\<^verbatim>\<open>count\<close>,
  \<^verbatim>\<open>createOrReplaceTempView\<close>, \<^verbatim>\<open>spark.sql\<close>, \<^verbatim>\<open>clearCache\<close>), the plain context
  setters and the notification call are taken to return normally.
\<close>

record 'd env =
  func_process :: "'d option \<Rightarrow> rule_type \<Rightarrow> stage \<Rightarrow> (int \<times> int) option \<Rightarrow> exn + 'd stage_result"
  df_count :: "'d \<Rightarrow> int"
  write_df_to_table :: "'d option \<Rightarrow> string \<Rightarrow> exn option"
  spark_sql_select :: "string \<Rightarrow> 'd"
  get_output_percentage :: "int \<Rightarrow> int \<Rightarrow> exn + rat"
  default_dq_run_status :: string
  default_count :: int

section \<open>Context setters\<close>

definition log_event :: "'d event \<Rightarrow> 'd world \<Rightarrow> 'd world" where
  "log_event e w = w\<lparr>trace := trace w @ [e]\<rparr>"

definition set_stage_status :: "stage \<Rightarrow> string \<Rightarrow> 'd world \<Rightarrow> 'd world" where
  "set_stage_status s v w =
     log_event (Set_status s v)
       (w\<lparr>ctx := (ctx w)\<lparr>stage_status := (stage_status (ctx w))(s := v)\<rparr>\<rparr>)"

definition set_stage_start_time :: "stage \<Rightarrow> 'd world \<Rightarrow> 'd world" where
  "set_stage_start_time s w =
     log_event (Set_start_time s)
       (w\<lparr>ctx := (ctx w)\<lparr>start_time := (start_time (ctx w))(s := Some (clock w))\<rparr>,
          clock := Suc (clock w)\<rparr>)"

definition set_stage_end_time :: "stage \<Rightarrow> 'd world \<Rightarrow> 'd world" where
  "set_stage_end_time s w =
     log_event (Set_end_time s)
       (w\<lparr>ctx := (ctx w)\<lparr>end_time := (end_time (ctx w))(s := Some (clock w))\<rparr>,
          clock := Suc (clock w)\<rparr>)"

definition set_table_name :: "string \<Rightarrow> 'd world \<Rightarrow> 'd world" where
  "set_table_name n w = w\<lparr>ctx := (ctx w)\<lparr>table_name := n\<rparr>\<rparr>"

definition set_error_count :: "int \<Rightarrow> 'd world \<Rightarrow> 'd world" where
  "set_error_count n w = w\<lparr>ctx := (ctx w)\<lparr>error_count := n\<rparr>\<rparr>"

definition set_output_count :: "int \<Rightarrow> 'd world \<Rightarrow> 'd world" where
  "set_output_count n w = w\<lparr>ctx := (ctx w)\<lparr>output_count := n\<rparr>\<rparr>"

section \<open>The settings computed by the decorator\<close>

text \<open>
  The local variables that \<^verbatim>\<open>_except\<close> computes once and the wrapper closes over:
  the seven flags read from \<^verbatim>\<open>rules_execution_settings\<close>, the view name, the two
  write flags of \<^verbatim>\<open>with_expectations\<close>, and the two notification values the wrapper
  itself uses.
\<close>

record settings =
  row_dq :: bool
  agg_dq :: bool
  source_agg_dq :: bool
  target_agg_dq :: bool
  query_dq :: bool
  source_query_dq :: bool
  target_query_dq :: bool
  target_table_view :: string
  write_to_table :: bool
  write_to_temp_table :: bool
  notification_on_error_drop_exceeds_threshold_breach :: bool
  se_error_drop_threshold :: int

text \<open>The local variables of the wrapper that outlive one stage.\<close>

record 'd locals =
  l_df :: 'd
  l_table_name :: string
  l_row_dq_df :: "'d option"
  l_error_count :: int
  l_output_count :: int

type_synonym ('a, 'd) action = "'d world \<Rightarrow> (exn + 'a) \<times> 'd world"

definition call_func_process ::
  "'d env \<Rightarrow> 'd option \<Rightarrow> stage \<Rightarrow> (int \<times> int) option \<Rightarrow> ('d stage_result, 'd) action" where
  "call_func_process env df s kw w =
     (func_process env df (rule_type_name s) s kw, log_event (Func_process s df kw) w)"

section \<open>The wrapper\<close>

text \<open>Lines 243 to 273: every field back to its default, then the two values known so far.\<close>

definition reset_context :: "'d env \<Rightarrow> settings \<Rightarrow> int \<Rightarrow> 'd world \<Rightarrow> 'd world" where
  "reset_context env st n w =
     w\<lparr>ctx := (ctx w)\<lparr>
        dq_run_status := default_dq_run_status env,
        stage_status := (\<lambda>s. default_stage_status),
        input_count := n,
        error_count := default_count env,
        output_count := default_count env,
        source_agg_dq_result := None,
        final_agg_dq_result := None,
        source_query_dq_result := None,
        final_query_dq_result := None,
        summarised_row_dq_res := None,
        start_time := (\<lambda>s. None),
        end_time := (\<lambda>s. None),
        error_drop_threshold := se_error_drop_threshold st\<rparr>\<rparr>"

text \<open>Lines 278 to 291: the optional round trip through the temp table.\<close>

definition temp_table_step :: "'d env \<Rightarrow> settings \<Rightarrow> 'd locals \<Rightarrow> ('d locals, 'd) action" where
  "temp_table_step env st l w =
     (if write_to_temp_table st then
        (let tmp = l_table_name l @ ''_temp'';
             w1 = log_event (Write_df_to_table (Some (l_df l)) tmp)
                    (log_event (Spark_sql_drop_table tmp) w)
         in case write_df_to_table env (Some (l_df l)) tmp of
              Some e \<Rightarrow> (Inl e, w1)
            | None \<Rightarrow> (Inr (l\<lparr>l_df := spark_sql_select env tmp\<rparr>),
                        log_event (Spark_sql_select tmp) w1))
      else (Inr l, w))"

text \<open>Lines 305 to 333.\<close>

definition source_agg_dq_stage :: "'d env \<Rightarrow> settings \<Rightarrow> 'd locals \<Rightarrow> ('d locals, 'd) action" where
  "source_agg_dq_stage env st l w =
     (if agg_dq st \<and> source_agg_dq st then
        (case call_func_process env (Some (l_df l)) Source_agg_dq None
                (set_stage_start_time Source_agg_dq
                   (set_stage_status Source_agg_dq ''Failed'' w)) of
           (Inl e, w1) \<Rightarrow> (Inl e, w1)
         | (Inr (source_dq_df, results, uu, status), w1) \<Rightarrow>
             (Inr l, set_stage_end_time Source_agg_dq
                       (set_stage_status Source_agg_dq status w1)))
      else (Inr l, w))"

text \<open>Lines 335 to 362.\<close>

definition source_query_dq_stage :: "'d env \<Rightarrow> settings \<Rightarrow> 'd locals \<Rightarrow> ('d locals, 'd) action" where
  "source_query_dq_stage env st l w =
     (if query_dq st \<and> source_query_dq st then
        (case call_func_process env (Some (l_df l)) Source_query_dq None
                (set_stage_start_time Source_query_dq
                   (set_stage_status Source_query_dq ''Failed'' w)) of
           (Inl e, w1) \<Rightarrow> (Inl e, w1)
         | (Inr (source_query_dq_df, results, uu, status), w1) \<Rightarrow>
             (Inr l, set_stage_end_time Source_query_dq
                       (set_stage_status Source_query_dq status w1)))
      else (Inr l, w))"

text \<open>
  Lines 395 to 407: the breach test. Python's \<^verbatim>\<open>and\<close> evaluates the percentage only
  when the flag is set.
\<close>

definition breach_check :: "'d env \<Rightarrow> settings \<Rightarrow> (unit, 'd) action" where
  "breach_check env st w =
     (if notification_on_error_drop_exceeds_threshold_breach st then
        (case get_output_percentage env (input_count (ctx w)) (output_count (ctx w)) of
           Inl e \<Rightarrow> (Inl e, w)
         | Inr p \<Rightarrow>
             (if 100 - p \<ge> of_int (se_error_drop_threshold st)
              then (Inr (), log_event Notify_on_exceeds_of_error_threshold w)
              else (Inr (), w)))
      else (Inr (), w))"

text \<open>
  Lines 364 to 410. A dataframe object is always truthy, so \<^verbatim>\<open>if _row_dq_df\<close> tests
  for \<^verbatim>\<open>None\<close>; a string is truthy when it is not empty.
\<close>

definition row_dq_stage :: "'d env \<Rightarrow> settings \<Rightarrow> 'd locals \<Rightarrow> ('d locals, 'd) action" where
  "row_dq_stage env st l w =
     (if row_dq st then
        (case call_func_process env (Some (l_df l)) Row_dq None
                (set_stage_start_time Row_dq (set_stage_status Row_dq ''Failed'' w)) of
           (Inl e, w1) \<Rightarrow> (Inl e, w1)
         | (Inr (row_dq_df, uu, err_count, status), w1) \<Rightarrow>
             (let w2 = set_error_count err_count w1;
                  w3 = (if target_table_view st \<noteq> [] then
                          (case row_dq_df of
                             Some d \<Rightarrow> log_event (Create_or_replace_temp_view d (target_table_view st)) w2
                           | None \<Rightarrow> w2)
                        else w2);
                  out_count = (case row_dq_df of Some d \<Rightarrow> df_count env d | None \<Rightarrow> 0);
                  w4 = set_output_count out_count w3;
                  w5 = set_stage_end_time Row_dq (set_stage_status Row_dq status w4);
                  l' = l\<lparr>l_row_dq_df := row_dq_df, l_error_count := err_count,
                         l_output_count := out_count\<rparr>
              in case breach_check env st w5 of
                   (Inl e, w6) \<Rightarrow> (Inl e, w6)
                 | (Inr u, w6) \<Rightarrow> (Inr l', w6)))
      else (Inr l, w))"

text \<open>Lines 412 to 444.\<close>

definition final_agg_dq_stage :: "'d env \<Rightarrow> settings \<Rightarrow> 'd locals \<Rightarrow> ('d locals, 'd) action" where
  "final_agg_dq_stage env st l w =
     (if row_dq st \<and> agg_dq st \<and> target_agg_dq st then
        (case call_func_process env (l_row_dq_df l) Final_agg_dq
                (Some (l_error_count l, l_output_count l))
                (set_stage_start_time Final_agg_dq
                   (set_stage_status Final_agg_dq ''Failed'' w)) of
           (Inl e, w1) \<Rightarrow> (Inl e, w1)
         | (Inr (final_dq_df, results, uu, status), w1) \<Rightarrow>
             (Inr l, set_stage_end_time Final_agg_dq
                       (set_stage_status Final_agg_dq status w1)))
      else (Inr l, w))"

text \<open>Lines 446 to 487.\<close>

definition final_query_dq_stage :: "'d env \<Rightarrow> settings \<Rightarrow> 'd locals \<Rightarrow> ('d locals, 'd) action" where
  "final_query_dq_stage env st l w =
     (if row_dq st \<and> query_dq st \<and> target_query_dq st then
        (let w1 = set_stage_start_time Final_query_dq
                    (set_stage_status Final_query_dq ''Failed'' w)
         in case (if target_table_view st \<noteq> [] then l_row_dq_df l else None) of
              None \<Rightarrow>
                (Inl (SparkExpectationsMiscException
                        ''final table view name is not supplied to run query dq''), w1)
            | Some d \<Rightarrow>
                (case call_func_process env (l_row_dq_df l) Final_query_dq
                        (Some (l_error_count l, l_output_count l))
                        (log_event (Create_or_replace_temp_view d (target_table_view st)) w1) of
                   (Inl e, w2) \<Rightarrow> (Inl e, w2)
                 | (Inr (final_query_dq_df, results, uu, status), w2) \<Rightarrow>
                     (Inr l, set_stage_end_time Final_query_dq
                               (set_stage_status Final_query_dq status w2))))
      else (Inr l, w))"

text \<open>Lines 489 to 497.\<close>

definition write_final_table :: "'d env \<Rightarrow> settings \<Rightarrow> 'd locals \<Rightarrow> ('d locals, 'd) action" where
  "write_final_table env st l w =
     (if row_dq st \<and> write_to_table st then
        (let w1 = log_event (Write_df_to_table (l_row_dq_df l) (l_table_name l)) w
         in case write_df_to_table env (l_row_dq_df l) (l_table_name l) of
              Some e \<Rightarrow> (Inl e, w1)
            | None \<Rightarrow> (Inr l, w1))
      else (Inr l, w))"

text \<open>
  The if-blocks of the wrapper are executed one after the other; an exception in one
  of them leaves the rest unexecuted.
\<close>

fun run_steps :: "('d locals \<Rightarrow> ('d locals, 'd) action) list \<Rightarrow> 'd locals \<Rightarrow> ('d locals, 'd) action" where
  "run_steps [] l w = (Inr l, w)"
| "run_steps (f # fs) l w =
     (case f l w of (Inl e, w') \<Rightarrow> (Inl e, w') | (Inr l', w') \<Rightarrow> run_steps fs l' w')"

definition dq_steps :: "'d env \<Rightarrow> settings \<Rightarrow> ('d locals \<Rightarrow> ('d locals, 'd) action) list" where
  "dq_steps env st =
     [temp_table_step env st,
      source_agg_dq_stage env st,
      source_query_dq_stage env st,
      row_dq_stage env st,
      final_agg_dq_stage env st,
      final_query_dq_stage env st,
      write_final_table env st]"

text \<open>
  Lines 275 to 506, the branch taken when the producer returned a dataframe; it ends
  with \<^verbatim>\<open>clearCache()\<close> and \<^verbatim>\<open>return _row_dq_df\<close>.
\<close>

definition dq_process :: "'d env \<Rightarrow> settings \<Rightarrow> 'd locals \<Rightarrow> ('d option, 'd) action" where
  "dq_process env st l w =
     (case run_steps (dq_steps env st) l w of
        (Inl e, w') \<Rightarrow> (Inl e, w')
      | (Inr l', w') \<Rightarrow> (Inr (l_row_dq_df l'), log_event Clear_cache w'))"

text \<open>\<^verbatim>\<open>_df.count()\<close>, executed before the \<^verbatim>\<open>isinstance\<close> test.\<close>

fun count_of :: "'d env \<Rightarrow> 'd produced \<Rightarrow> exn + int" where
  "count_of env (DataFrame d) = Inr (df_count env d)"
| "count_of env (OtherObject c) = c"

text \<open>
  The body of the \<^verbatim>\<open>try\<close> block, lines 229 to 506. The first argument is the outcome
  of calling the producer: an exception, or the object returned.
\<close>

definition wrapper_try :: "'d env \<Rightarrow> settings \<Rightarrow> exn + 'd produced \<Rightarrow> ('d option, 'd) action" where
  "wrapper_try env st outcome w =
     (case outcome of
        Inl e \<Rightarrow> (Inl e, w)
      | Inr obj \<Rightarrow>
          (case count_of env obj of
             Inl e \<Rightarrow> (Inl e, w)
           | Inr n \<Rightarrow>
               (let tbl = table_name (ctx w);
                    w1 = reset_context env st n w
                in case obj of
                     DataFrame d \<Rightarrow>
                       dq_process env st
                         \<lparr>l_df = d, l_table_name = tbl, l_row_dq_df = None,
                          l_error_count = 0, l_output_count = 0\<rparr>
                         (set_table_name tbl w1)
                   | OtherObject c \<Rightarrow>
                       (Inl (SparkExpectationsDataframeNotReturnedException
                               ''error occurred while processing spark expectations due to given dataframe is not type of dataframe''),
                        w1))))"

text \<open>Lines 508 to 511: the catch-all handler.\<close>

definition wrapper :: "'d env \<Rightarrow> settings \<Rightarrow> exn + 'd produced \<Rightarrow> ('d option, 'd) action" where
  "wrapper env st outcome w =
     (case wrapper_try env st outcome w of
        (Inl e, w') \<Rightarrow>
          (Inl (SparkExpectationsMiscException
                  (''error occurred while processing spark expectations '' @ exn_str e)), w')
      | (Inr r, w') \<Rightarrow> (Inr r, w'))"

section \<open>The notification settings of the decorator\<close>

text \<open>
  The keys of \<^verbatim>\<open>spark_conf\<close> that \<^verbatim>\<open>_except\<close> reads are constants of
  \<^verbatim>\<open>user_config.Constants\<close>, a module that is not among the sources; the model gives
  each its own constructor and keeps every other key as \<open>Other_key\<close>.
\<close>

datatype conf_key =
    Se_notifications_on_start
  | Se_notifications_on_completion
  | Se_notifications_on_fail
  | Se_notifications_on_error_drop_exceeds_threshold_breach
  | Se_notifications_on_error_drop_threshold
  | Other_key string

type_synonym py_dict = "(conf_key \<times> pyval) list"

definition default_notification_dict :: py_dict where
  "default_notification_dict =
     [(Se_notifications_on_start, PyBool False),
      (Se_notifications_on_completion, PyBool False),
      (Se_notifications_on_fail, PyBool True),
      (Se_notifications_on_error_drop_exceeds_threshold_breach, PyBool False),
      (Se_notifications_on_error_drop_threshold, PyInt 100)]"

text \<open>
  Lines 117 to 121. \<^verbatim>\<open>None\<close> and the empty dictionary are falsy; otherwise the
  entries of \<^verbatim>\<open>spark_conf\<close> override the defaults.
\<close>

definition notification_dict :: "py_dict option \<Rightarrow> py_dict" where
  "notification_dict spark_conf =
     (case spark_conf of
        None \<Rightarrow> default_notification_dict
      | Some c \<Rightarrow> if c = [] then default_notification_dict
                  else AList.merge default_notification_dict c)"

definition getitem :: "py_dict \<Rightarrow> conf_key \<Rightarrow> exn + pyval" where
  "getitem d k = (case map_of d k of None \<Rightarrow> Inl (PyException ''KeyError'') | Some v \<Rightarrow> Inr v)"

text \<open>
  \<^verbatim>\<open>bool(v) if isinstance(v, bool) else False\<close>, and
  \<^verbatim>\<open>int(v) if isinstance(v, int) else 100\<close>. In Python \<^verbatim>\<open>bool\<close> is a subclass of
  \<^verbatim>\<open>int\<close>, so a boolean passes the second test and \<^verbatim>\<open>int\<close> maps it to 0 or 1.
\<close>

fun bool_if_bool :: "pyval \<Rightarrow> bool" where
  "bool_if_bool (PyBool b) = b"
| "bool_if_bool v = False"

fun int_if_int :: "pyval \<Rightarrow> int" where
  "int_if_int (PyBool b) = (if b then 1 else 0)"
| "int_if_int (PyInt n) = n"
| "int_if_int v = 100"

record notification_params =
  np_on_start :: bool
  np_on_completion :: bool
  np_on_fail :: bool
  np_on_error_drop_exceeds_threshold_breach :: bool
  np_error_drop_threshold :: int

text \<open>Lines 164 to 215; a missing key would raise KeyError.\<close>

definition notification_settings :: "py_dict option \<Rightarrow> exn + notification_params" where
  "notification_settings spark_conf =
     (let d = notification_dict spark_conf in
      case getitem d Se_notifications_on_start of Inl e \<Rightarrow> Inl e | Inr v1 \<Rightarrow>
      case getitem d Se_notifications_on_completion of Inl e \<Rightarrow> Inl e | Inr v2 \<Rightarrow>
      case getitem d Se_notifications_on_fail of Inl e \<Rightarrow> Inl e | Inr v3 \<Rightarrow>
      case getitem d Se_notifications_on_error_drop_exceeds_threshold_breach of Inl e \<Rightarrow> Inl e | Inr v4 \<Rightarrow>
      case getitem d Se_notifications_on_error_drop_threshold of Inl e \<Rightarrow> Inl e | Inr v5 \<Rightarrow>
        Inr \<lparr>np_on_start = bool_if_bool v1,
             np_on_completion = bool_if_bool v2,
             np_on_fail = bool_if_bool v3,
             np_on_error_drop_exceeds_threshold_breach = bool_if_bool v4,
             np_error_drop_threshold = int_if_int v5\<rparr>)"

text \<open>
  The claim's reading of the same computation: the value in force for a key is the
  caller's when the caller supplied one and the fixed default otherwise; a flag is the
  value in force when that is a boolean and false otherwise; the threshold is the
  value in force when that is an integer and 100 otherwise.
\<close>

fun default_value :: "conf_key \<Rightarrow> pyval" where
  "default_value Se_notifications_on_start = PyBool False"
| "default_value Se_notifications_on_completion = PyBool False"
| "default_value Se_notifications_on_fail = PyBool True"
| "default_value Se_notifications_on_error_drop_exceeds_threshold_breach = PyBool False"
| "default_value Se_notifications_on_error_drop_threshold = PyInt 100"
| "default_value (Other_key k) = PyNone"

definition value_in_force :: "py_dict option \<Rightarrow> conf_key \<Rightarrow> pyval" where
  "value_in_force spark_conf k =
     (case spark_conf of
        None \<Rightarrow> default_value k
      | Some c \<Rightarrow> (case map_of c k of None \<Rightarrow> default_value k | Some v \<Rightarrow> v))"

fun isinstance_bool :: "pyval \<Rightarrow> bool" where
  "isinstance_bool (PyBool b) = True"
| "isinstance_bool v = False"

fun isinstance_int :: "pyval \<Rightarrow> bool" where
  "isinstance_int (PyBool b) = True"
| "isinstance_int (PyInt n) = True"
| "isinstance_int v = False"

definition flag_in_force :: "py_dict option \<Rightarrow> conf_key \<Rightarrow> bool" where
  "flag_in_force spark_conf k =
     (isinstance_bool (value_in_force spark_conf k) \<and> value_in_force spark_conf k = PyBool True)"

definition threshold_in_force :: "py_dict option \<Rightarrow> int" where
  "threshold_in_force spark_conf =
     (case value_in_force spark_conf Se_notifications_on_error_drop_threshold of
        PyInt n \<Rightarrow> n
      | PyBool b \<Rightarrow> (if b then 1 else 0)
      | v \<Rightarrow> 100)"

section \<open>Reading the trace\<close>

text \<open>The stage evaluations of a trace, in order, each with the dataset it received.\<close>

fun stage_calls :: "'d event list \<Rightarrow> (stage \<times> 'd option) list" where
  "stage_calls [] = []"
| "stage_calls (Func_process s d kw # es) = (s, d) # stage_calls es"
| "stage_calls (e # es) = stage_calls es"

text \<open>The events of a trace that belong to one stage.\<close>

fun about_stage :: "stage \<Rightarrow> 'd event \<Rightarrow> bool" where
  "about_stage s (Set_status s' v) = (s' = s)"
| "about_stage s (Set_start_time s') = (s' = s)"
| "about_stage s (Set_end_time s') = (s' = s)"
| "about_stage s (Func_process s' d kw) = (s' = s)"
| "about_stage s e = False"

definition stage_events :: "stage \<Rightarrow> 'd event list \<Rightarrow> 'd event list" where
  "stage_events s es = filter (about_stage s) es"

text \<open>
  The claim's reading of what a stage leaves in the trace and in the context: the
  events of the stage, its status, and its start and end time.
\<close>

definition stage_protocol ::
  "'d env \<Rightarrow> stage \<Rightarrow> 'd event list \<Rightarrow> string \<Rightarrow> nat option \<Rightarrow> nat option \<Rightarrow> bool" where
  "stage_protocol env s evs status started ended \<longleftrightarrow>
     evs = [] \<or>
     (evs = [Set_status s ''Failed'', Set_start_time s] \<and>
        status = ''Failed'' \<and> started \<noteq> None \<and> ended = None) \<or>
     (\<exists>d kw e. func_process env d (rule_type_name s) s kw = Inl e \<and>
        evs = [Set_status s ''Failed'', Set_start_time s, Func_process s d kw] \<and>
        status = ''Failed'' \<and> started \<noteq> None \<and> ended = None) \<or>
     (\<exists>d kw a b c v. func_process env d (rule_type_name s) s kw = Inr (a, b, c, v) \<and>
        evs = [Set_status s ''Failed'', Set_start_time s, Func_process s d kw,
               Set_status s v, Set_end_time s] \<and>
        status = v \<and> started \<noteq> None \<and> ended \<noteq> None)"

text \<open>
  The claim's reading of the five guards: the flag conjunction of each stage, the
  fixed order, and the dataset each stage is given.
\<close>

fun eligible :: "settings \<Rightarrow> stage \<Rightarrow> bool" where
  "eligible st Source_agg_dq = (agg_dq st \<and> source_agg_dq st)"
| "eligible st Source_query_dq = (query_dq st \<and> source_query_dq st)"
| "eligible st Row_dq = row_dq st"
| "eligible st Final_agg_dq = (row_dq st \<and> agg_dq st \<and> target_agg_dq st)"
| "eligible st Final_query_dq = (row_dq st \<and> query_dq st \<and> target_query_dq st)"

definition stage_order :: "stage list" where
  "stage_order = [Source_agg_dq, Source_query_dq, Row_dq, Final_agg_dq, Final_query_dq]"

fun stage_input :: "'d \<Rightarrow> 'd option \<Rightarrow> stage \<Rightarrow> 'd option" where
  "stage_input raw row_filtered Source_agg_dq = Some raw"
| "stage_input raw row_filtered Source_query_dq = Some raw"
| "stage_input raw row_filtered Row_dq = Some raw"
| "stage_input raw row_filtered Final_agg_dq = row_filtered"
| "stage_input raw row_filtered Final_query_dq = row_filtered"

definition stage_plan :: "settings \<Rightarrow> 'd \<Rightarrow> 'd option \<Rightarrow> (stage \<times> 'd option) list" where
  "stage_plan st raw row_filtered =
     map (\<lambda>s. (s, stage_input raw row_filtered s)) (filter (eligible st) stage_order)"

text \<open>
  The dataset the stages see as \<^verbatim>\<open>_df\<close>: the producer's, or its copy read back from
  the temp table. The row-filtered dataset is the first component of what the row
  evaluation returns on it.
\<close>

definition raw_dataset :: "'d env \<Rightarrow> settings \<Rightarrow> string \<Rightarrow> 'd \<Rightarrow> 'd" where
  "raw_dataset env st tbl d =
     (if write_to_temp_table st then spark_sql_select env (tbl @ ''_temp'') else d)"

definition row_filtered_dataset :: "'d env \<Rightarrow> 'd \<Rightarrow> 'd option" where
  "row_filtered_dataset env raw =
     (case func_process env (Some raw) Row_dq_rule Row_dq None of
        Inl e \<Rightarrow> None
      | Inr (d, results, n, status) \<Rightarrow> d)"

section \<open>A concrete run\<close>

text \<open>
  A small instance on which the theorems below are exercised: a dataset is a list of
  numbers, the row rule drops the numbers from 10 on, and the other rules pass.
\<close>

definition demo_func_process ::
  "nat list option \<Rightarrow> rule_type \<Rightarrow> stage \<Rightarrow> (int \<times> int) option \<Rightarrow> exn + nat list stage_result" where
  "demo_func_process df rt s kw =
     (case df of
        None \<Rightarrow> Inl (PyException ''no dataframe'')
      | Some rows \<Rightarrow>
          (if s = Row_dq
           then Inr (Some (filter (\<lambda>x. x < 10) rows), None,
                     int (length (filter (\<lambda>x. \<not> x < 10) rows)), ''Passed'')
           else Inr (Some rows, None, 0, ''Passed'')))"

definition demo_env :: "nat list env" where
  "demo_env =
     \<lparr>func_process = demo_func_process,
      df_count = (\<lambda>d. int (length d)),
      write_df_to_table = (\<lambda>d n. None),
      spark_sql_select = (\<lambda>n. []),
      get_output_percentage =
        (\<lambda>i out. if i = 0 then Inl (PyException ''division by zero'')
                  else Inr (of_int out * 100 / of_int i)),
      default_dq_run_status = ''Failed'',
      default_count = 0\<rparr>"

definition demo_settings :: settings where
  "demo_settings =
     \<lparr>row_dq = True, agg_dq = True, source_agg_dq = True, target_agg_dq = True,
      query_dq = True, source_query_dq = True, target_query_dq = True,
      target_table_view = ''t_view'', write_to_table = True, write_to_temp_table = False,
      notification_on_error_drop_exceeds_threshold_breach = True,
      se_error_drop_threshold = 20\<rparr>"

definition demo_context :: se_context where
  "demo_context =
     \<lparr>table_name = ''t'', dq_run_status = ''Passed'', stage_status = (\<lambda>s. ''Passed''),
      input_count = 7, error_count = 0, output_count = 7,
      source_agg_dq_result = None, final_agg_dq_result = None,
      source_query_dq_result = None, final_query_dq_result = None,
      summarised_row_dq_res = None,
      start_time = (\<lambda>s. None), end_time = (\<lambda>s. None), error_drop_threshold = 100\<rparr>"

definition demo_world :: "nat list world" where
  "demo_world = \<lparr>ctx = demo_context, trace = [], clock = 0\<rparr>"

definition demo_failing_env :: "nat list env" where
  "demo_failing_env =
     demo_env\<lparr>func_process :=
       (\<lambda>df rt s kw. if s = Source_query_dq then Inl (PyException ''boom'')
                     else demo_func_process df rt s kw)\<rparr>"

definition demo_no_row_df_env :: "nat list env" where
  "demo_no_row_df_env =
     demo_env\<lparr>func_process :=
       (\<lambda>df rt s kw. if s = Row_dq then Inr (None, None, 0, ''Passed'')
                     else demo_func_process df rt s kw)\<rparr>"

definition demo_rows :: "nat list" where
  "demo_rows = [1, 2, 30, 4]"

section \<open>Notions used in the proofs\<close>

text \<open>
  A Hoare triple over a list of steps with a postcondition for the normal and one
  for the exceptional exit; predicates that say what a step leaves alone; and the
  finer description of a stage's outcome from which the theorems are read off.
\<close>

definition hoare ::
  "('d locals \<Rightarrow> 'd world \<Rightarrow> bool) \<Rightarrow> ('d locals \<Rightarrow> ('d locals, 'd) action) list \<Rightarrow>
   ('d locals \<Rightarrow> 'd world \<Rightarrow> bool) \<Rightarrow> (exn \<Rightarrow> 'd world \<Rightarrow> bool) \<Rightarrow> bool" where
  "hoare P fs Q E \<longleftrightarrow>
     (\<forall>l w r w'. P l w \<longrightarrow> run_steps fs l w = (r, w') \<longrightarrow>
        (case r of Inl e \<Rightarrow> E e w' | Inr l' \<Rightarrow> Q l' w'))"

definition init_locals :: "'d \<Rightarrow> string \<Rightarrow> 'd locals" where
  "init_locals d tbl =
     \<lparr>l_df = d, l_table_name = tbl, l_row_dq_df = None, l_error_count = 0, l_output_count = 0\<rparr>"

definition init_world :: "'d env \<Rightarrow> settings \<Rightarrow> 'd \<Rightarrow> 'd world \<Rightarrow> 'd world" where
  "init_world env st d w =
     set_table_name (table_name (ctx w)) (reset_context env st (df_count env d) w)"

definition wrap_exn :: "exn \<Rightarrow> exn" where
  "wrap_exn e = SparkExpectationsMiscException
                  (''error occurred while processing spark expectations '' @ exn_str e)"

definition no_final_write :: "string \<Rightarrow> 'd event list \<Rightarrow> bool" where
  "no_final_write tbl es \<longleftrightarrow> (\<forall>x. Write_df_to_table x tbl \<notin> set es)"

definition frames :: "stage \<Rightarrow> ('d locals \<Rightarrow> ('d locals, 'd) action) \<Rightarrow> bool" where
  "frames s f \<longleftrightarrow>
     (\<forall>l w r w'. f l w = (r, w') \<longrightarrow>
        (\<exists>new. trace w' = trace w @ new \<and> stage_events s new = []) \<and>
        stage_status (ctx w') s = stage_status (ctx w) s \<and>
        start_time (ctx w') s = start_time (ctx w) s \<and>
        end_time (ctx w') s = end_time (ctx w) s)"

fun stage_step :: "'d env \<Rightarrow> settings \<Rightarrow> stage \<Rightarrow> 'd locals \<Rightarrow> ('d locals, 'd) action" where
  "stage_step env st Source_agg_dq = source_agg_dq_stage env st"
| "stage_step env st Source_query_dq = source_query_dq_stage env st"
| "stage_step env st Row_dq = row_dq_stage env st"
| "stage_step env st Final_agg_dq = final_agg_dq_stage env st"
| "stage_step env st Final_query_dq = final_query_dq_stage env st"

fun steps_before :: "'d env \<Rightarrow> settings \<Rightarrow> stage \<Rightarrow> ('d locals \<Rightarrow> ('d locals, 'd) action) list" where
  "steps_before env st Source_agg_dq = [temp_table_step env st]"
| "steps_before env st Source_query_dq = [temp_table_step env st, source_agg_dq_stage env st]"
| "steps_before env st Row_dq =
     [temp_table_step env st, source_agg_dq_stage env st, source_query_dq_stage env st]"
| "steps_before env st Final_agg_dq =
     [temp_table_step env st, source_agg_dq_stage env st, source_query_dq_stage env st,
      row_dq_stage env st]"
| "steps_before env st Final_query_dq =
     [temp_table_step env st, source_agg_dq_stage env st, source_query_dq_stage env st,
      row_dq_stage env st, final_agg_dq_stage env st]"

fun steps_after :: "'d env \<Rightarrow> settings \<Rightarrow> stage \<Rightarrow> ('d locals \<Rightarrow> ('d locals, 'd) action) list" where
  "steps_after env st Source_agg_dq =
     [source_query_dq_stage env st, row_dq_stage env st, final_agg_dq_stage env st,
      final_query_dq_stage env st, write_final_table env st]"
| "steps_after env st Source_query_dq =
     [row_dq_stage env st, final_agg_dq_stage env st, final_query_dq_stage env st,
      write_final_table env st]"
| "steps_after env st Row_dq =
     [final_agg_dq_stage env st, final_query_dq_stage env st, write_final_table env st]"
| "steps_after env st Final_agg_dq = [final_query_dq_stage env st, write_final_table env st]"
| "steps_after env st Final_query_dq = [write_final_table env st]"

fun call_ok :: "settings \<Rightarrow> stage \<Rightarrow> 'd option \<Rightarrow> bool" where
  "call_ok st Final_query_dq d = (d \<noteq> None \<and> target_table_view st \<noteq> [])"
| "call_ok st s d = True"

definition stage_outcome ::
  "'d env \<Rightarrow> settings \<Rightarrow> stage \<Rightarrow> 'd event list \<Rightarrow> exn + 'd locals \<Rightarrow> string \<Rightarrow>
   nat option \<Rightarrow> nat option \<Rightarrow> bool" where
  "stage_outcome env st s new r status started ended \<longleftrightarrow>
     stage_events s new = [] \<or>
     (stage_events s new = [Set_status s ''Failed'', Set_start_time s] \<and>
        status = ''Failed'' \<and> started \<noteq> None \<and> ended = None \<and>
        r = Inl (SparkExpectationsMiscException
                   ''final table view name is not supplied to run query dq'') \<and>
        last new = Set_start_time s) \<or>
     (\<exists>d kw e. func_process env d (rule_type_name s) s kw = Inl e \<and> call_ok st s d \<and>
        stage_events s new = [Set_status s ''Failed'', Set_start_time s, Func_process s d kw] \<and>
        status = ''Failed'' \<and> started \<noteq> None \<and> ended = None \<and>
        r = Inl e \<and> last new = Func_process s d kw) \<or>
     (\<exists>d kw a b c v. func_process env d (rule_type_name s) s kw = Inr (a, b, c, v) \<and>
        call_ok st s d \<and>
        stage_events s new = [Set_status s ''Failed'', Set_start_time s, Func_process s d kw,
               Set_status s v, Set_end_time s] \<and>
        status = v \<and> started \<noteq> None \<and> ended \<noteq> None)"

definition calls_are :: "'d event list \<Rightarrow> (stage \<times> 'd option) list \<Rightarrow> 'd world \<Rightarrow> bool" where
  "calls_are t0 cs w \<longleftrightarrow> (\<exists>new. trace w = t0 @ new \<and> stage_calls new = cs)"

definition calls_within :: "'d event list \<Rightarrow> (stage \<times> 'd option) list \<Rightarrow> (stage \<times> 'd option) list \<Rightarrow> 'd world \<Rightarrow> bool" where
  "calls_within t0 cs sg w \<longleftrightarrow> (\<exists>c. calls_are t0 (cs @ c) w \<and> prefix c sg)"

definition seg :: "settings \<Rightarrow> 'd \<Rightarrow> 'd option \<Rightarrow> stage \<Rightarrow> (stage \<times> 'd option) list" where
  "seg st raw rowdf s = (if eligible st s then [(s, stage_input raw rowdf s)] else [])"

definition quiet :: "('d locals \<Rightarrow> ('d locals, 'd) action) \<Rightarrow> bool" where
  "quiet f \<longleftrightarrow>
     (\<forall>l w r w'. f l w = (r, w') \<longrightarrow>
        (\<exists>new. trace w' = trace w @ new \<and>
           Notify_on_exceeds_of_error_threshold \<notin> set new \<and> Set_end_time Row_dq \<notin> set new) \<and>
        input_count (ctx w') = input_count (ctx w) \<and>
        output_count (ctx w') = output_count (ctx w))"

definition oblivious :: "('d locals \<Rightarrow> ('d locals, 'd) action) \<Rightarrow> bool" where
  "oblivious f \<longleftrightarrow>
     (\<forall>l w v r w'. ctx v = ctx w \<longrightarrow> clock v = clock w \<longrightarrow> f l w = (r, w') \<longrightarrow>
        (\<exists>new v'. trace w' = trace w @ new \<and> f l v = (r, v') \<and> trace v' = trace v @ new \<and>
           ctx v' = ctx w' \<and> clock v' = clock w'))"

definition breach_cond :: "'d env \<Rightarrow> settings \<Rightarrow> 'd world \<Rightarrow> bool" where
  "breach_cond env st w \<longleftrightarrow>
     notification_on_error_drop_exceeds_threshold_breach st \<and>
     (\<exists>p. get_output_percentage env (input_count (ctx w)) (output_count (ctx w)) = Inr p \<and>
          of_int (se_error_drop_threshold st) \<le> 100 - p)"

section \<open>The per-rule threshold list of the writer\<close>

text \<open>
  \<^verbatim>\<open>SparkExpectationsWriter.generate_rules_exceeds_threshold\<close> is defined in
  \<^verbatim>\<open>writer.py\<close>, which is not among the sources; \<^verbatim>\<open>test_writer.py\<close> calls it. The
  records below are the dictionaries those tests pass and expect. A summarised entry
  may lack its keys (the test passes \<^verbatim>\<open>[{}]\<close>).
\<close>

record dq_rule =
  r_rule :: string
  r_enable_error_drop_alert :: bool
  r_action_if_failed :: string
  r_description :: string
  r_rule_type :: string
  r_error_drop_threshold :: string

record summarised_entry =
  s_rule :: "string option"
  s_failed_row_count :: "int option"

record threshold_entry =
  e_rule_name :: string
  e_action_if_failed :: string
  e_description :: string
  e_rule_type :: string
  e_error_drop_threshold :: string
  e_error_drop_percentage :: string

text \<open>Decimal rendering of a natural number and of a number of tenths.\<close>

definition digit_char :: "nat \<Rightarrow> char" where
  "digit_char n = ''0123456789'' ! n"

function show_nat :: "nat \<Rightarrow> string" where
  "show_nat n = (if n < 10 then [digit_char n] else show_nat (n div 10) @ [digit_char (n mod 10)])"
  by pat_completeness auto
termination
  by (relation "measure (\<lambda>n. n)") auto

definition show_tenths :: "int \<Rightarrow> string" where
  "show_tenths k =
     (if k < 0 then ''-'' @ show_nat (nat (- k) div 10) @ ''.'' @ show_nat (nat (- k) mod 10)
      else show_nat (nat k div 10) @ ''.'' @ show_nat (nat k mod 10))"

text \<open>
  Modelled from the spec: "error_drop_percentage = failed_count / input_count * 100
  (one decimal place)". The percentage is an exact rational, rounded to the nearest
  tenth, a tie going to the even tenth as Python's \<^verbatim>\<open>round\<close> does, and rendered as
  \<^verbatim>\<open>str\<close> renders a float with one decimal. "input_count = 0 is a hard error for this
  computation".
\<close>

definition round_tenths :: "rat \<Rightarrow> int" where
  "round_tenths x =
     (let t = x * 10; f = \<lfloor>t\<rfloor>; d = t - of_int f
      in if d < 1 / 2 then f else if 1 / 2 < d then f + 1 else if even f then f else f + 1)"

definition error_drop_percentage :: "int \<Rightarrow> int \<Rightarrow> exn + string" where
  "error_drop_percentage failed_count inp =
     (if inp = 0 then Inl (PyException ''division by zero'')
      else Inr (show_tenths (round_tenths (of_int failed_count / of_int inp * 100))))"

text \<open>
  Modelled from the spec: the failed-row count of a rule comes from
  \<open>summarised_row_dq_result\<close>, "per-rule failed-row counts produced by row-level
  evaluation"; an entry without its rule name or count cannot be read.
\<close>

fun failed_row_counts :: "summarised_entry list \<Rightarrow> exn + (string \<times> int) list" where
  "failed_row_counts [] = Inr []"
| "failed_row_counts (x # xs) =
     (case s_rule x of
        None \<Rightarrow> Inl (PyException ''KeyError: rule'')
      | Some n \<Rightarrow>
          (case s_failed_row_count x of
             None \<Rightarrow> Inl (PyException ''KeyError: failed_row_count'')
           | Some k \<Rightarrow>
               (case failed_row_counts xs of
                  Inl e \<Rightarrow> Inl e
                | Inr m \<Rightarrow> Inr ((n, k) # m))))"

text \<open>
  Modelled from the spec: "for each row rule with enable_error_drop_alert = true,
  compute error_drop_percentage ... and include the rule in rules_exceeds_threshold
  when this percentage is present, regardless of whether it exceeds the rule's own
  error_drop_threshold". The entry has the fields the tests expect.
\<close>

fun threshold_entries :: "(string \<times> int) list \<Rightarrow> int \<Rightarrow> dq_rule list \<Rightarrow> exn + threshold_entry list" where
  "threshold_entries counts inp [] = Inr []"
| "threshold_entries counts inp (r # rs) =
     (if r_enable_error_drop_alert r then
        (case map_of counts (r_rule r) of
           None \<Rightarrow> threshold_entries counts inp rs
         | Some k \<Rightarrow>
             (case error_drop_percentage k inp of
                Inl e \<Rightarrow> Inl e
              | Inr p \<Rightarrow>
                  (case threshold_entries counts inp rs of
                     Inl e \<Rightarrow> Inl e
                   | Inr es \<Rightarrow>
                       Inr (\<lparr>e_rule_name = r_rule r,
                             e_action_if_failed = r_action_if_failed r,
                             e_description = r_description r,
                             e_rule_type = r_rule_type r,
                             e_error_drop_threshold = r_error_drop_threshold r,
                             e_error_drop_percentage = p\<rparr> # es))))
      else threshold_entries counts inp rs)"

text \<open>
  Modelled from the spec: the whole computation, on the rule list, the summarised
  row result and the input count of the context. The tests fix what the spec leaves
  open: without a summarised result the collection stays \<^verbatim>\<open>None\<close> and nothing is
  raised; without a rule list, or with an entry that lacks its keys, the call raises
  SparkExpectationsMiscException with the message "An error occurred while creating
  error threshold list : ...".
\<close>

definition generate_rules_exceeds_threshold ::
  "dq_rule list option \<Rightarrow> summarised_entry list option \<Rightarrow> int \<Rightarrow> exn + threshold_entry list option" where
  "generate_rules_exceeds_threshold rules summarised inp =
     (case summarised of
        None \<Rightarrow> Inr None
      | Some sm \<Rightarrow>
          (case (case failed_row_counts sm of
                   Inl e \<Rightarrow> Inl e
                 | Inr counts \<Rightarrow>
                     (case rules of
                        None \<Rightarrow> Inl (PyException ''NoneType object is not subscriptable'')
                      | Some rs \<Rightarrow> threshold_entries (rev counts) inp rs)) of
             Inl e \<Rightarrow>
               Inl (SparkExpectationsMiscException
                      (''An error occurred while creating error threshold list : '' @ exn_str e))
           | Inr es \<Rightarrow> Inr (Some es)))"

text \<open>The rules and results of the parametrised test in \<^verbatim>\<open>test_writer.py\<close>.\<close>

definition test_rule :: "string \<Rightarrow> string \<Rightarrow> string \<Rightarrow> dq_rule" where
  "test_rule n a d =
     \<lparr>r_rule = n, r_enable_error_drop_alert = True, r_action_if_failed = a,
      r_description = d, r_rule_type = ''row_dq'', r_error_drop_threshold = ''10''\<rparr>"

definition test_entry :: "string \<Rightarrow> string \<Rightarrow> string \<Rightarrow> string \<Rightarrow> threshold_entry" where
  "test_entry n a d p =
     \<lparr>e_rule_name = n, e_action_if_failed = a, e_description = d, e_rule_type = ''row_dq'',
      e_error_drop_threshold = ''10'', e_error_drop_percentage = p\<rparr>"

definition test_summary :: "string \<Rightarrow> int \<Rightarrow> summarised_entry" where
  "test_summary n k = \<lparr>s_rule = Some n, s_failed_row_count = Some k\<rparr>"

section \<open>What each setter changes\<close>

lemma world_log_event [simp]:
  "trace (log_event e w) = trace w @ [e]"
  "clock (log_event e w) = clock w"
  "table_name (ctx (log_event e w)) = table_name (ctx w)"
  "stage_status (ctx (log_event e w)) = stage_status (ctx w)"
  "input_count (ctx (log_event e w)) = input_count (ctx w)"
  "error_count (ctx (log_event e w)) = error_count (ctx w)"
  "output_count (ctx (log_event e w)) = output_count (ctx w)"
  "start_time (ctx (log_event e w)) = start_time (ctx w)"
  "end_time (ctx (log_event e w)) = end_time (ctx w)"
  by (simp_all add: log_event_def)

lemma world_set_stage_status [simp]:
  "trace (set_stage_status s v w) = trace w @ [Set_status s v]"
  "clock (set_stage_status s v w) = clock w"
  "table_name (ctx (set_stage_status s v w)) = table_name (ctx w)"
  "stage_status (ctx (set_stage_status s v w)) = (stage_status (ctx w))(s := v)"
  "input_count (ctx (set_stage_status s v w)) = input_count (ctx w)"
  "error_count (ctx (set_stage_status s v w)) = error_count (ctx w)"
  "output_count (ctx (set_stage_status s v w)) = output_count (ctx w)"
  "start_time (ctx (set_stage_status s v w)) = start_time (ctx w)"
  "end_time (ctx (set_stage_status s v w)) = end_time (ctx w)"
  by (simp_all add: set_stage_status_def log_event_def)

lemma world_set_stage_start_time [simp]:
  "trace (set_stage_start_time s w) = trace w @ [Set_start_time s]"
  "clock (set_stage_start_time s w) = Suc (clock w)"
  "table_name (ctx (set_stage_start_time s w)) = table_name (ctx w)"
  "stage_status (ctx (set_stage_start_time s w)) = stage_status (ctx w)"
  "input_count (ctx (set_stage_start_time s w)) = input_count (ctx w)"
  "error_count (ctx (set_stage_start_time s w)) = error_count (ctx w)"
  "output_count (ctx (set_stage_start_time s w)) = output_count (ctx w)"
  "start_time (ctx (set_stage_start_time s w)) = (start_time (ctx w))(s := Some (clock w))"
  "end_time (ctx (set_stage_start_time s w)) = end_time (ctx w)"
  by (simp_all add: set_stage_start_time_def log_event_def)

lemma world_set_stage_end_time [simp]:
  "trace (set_stage_end_time s w) = trace w @ [Set_end_time s]"
  "clock (set_stage_end_time s w) = Suc (clock w)"
  "table_name (ctx (set_stage_end_time s w)) = table_name (ctx w)"
  "stage_status (ctx (set_stage_end_time s w)) = stage_status (ctx w)"
  "input_count (ctx (set_stage_end_time s w)) = input_count (ctx w)"
  "error_count (ctx (set_stage_end_time s w)) = error_count (ctx w)"
  "output_count (ctx (set_stage_end_time s w)) = output_count (ctx w)"
  "start_time (ctx (set_stage_end_time s w)) = start_time (ctx w)"
  "end_time (ctx (set_stage_end_time s w)) = (end_time (ctx w))(s := Some (clock w))"
  by (simp_all add: set_stage_end_time_def log_event_def)

lemma world_set_error_count [simp]:
  "trace (set_error_count n w) = trace w"
  "clock (set_error_count n w) = clock w"
  "table_name (ctx (set_error_count n w)) = table_name (ctx w)"
  "stage_status (ctx (set_error_count n w)) = stage_status (ctx w)"
  "input_count (ctx (set_error_count n w)) = input_count (ctx w)"
  "error_count (ctx (set_error_count n w)) = n"
  "output_count (ctx (set_error_count n w)) = output_count (ctx w)"
  "start_time (ctx (set_error_count n w)) = start_time (ctx w)"
  "end_time (ctx (set_error_count n w)) = end_time (ctx w)"
  by (simp_all add: set_error_count_def)

lemma world_set_output_count [simp]:
  "trace (set_output_count n w) = trace w"
  "clock (set_output_count n w) = clock w"
  "table_name (ctx (set_output_count n w)) = table_name (ctx w)"
  "stage_status (ctx (set_output_count n w)) = stage_status (ctx w)"
  "input_count (ctx (set_output_count n w)) = input_count (ctx w)"
  "error_count (ctx (set_output_count n w)) = error_count (ctx w)"
  "output_count (ctx (set_output_count n w)) = n"
  "start_time (ctx (set_output_count n w)) = start_time (ctx w)"
  "end_time (ctx (set_output_count n w)) = end_time (ctx w)"
  by (simp_all add: set_output_count_def)

lemma world_set_table_name [simp]:
  "trace (set_table_name n w) = trace w"
  "clock (set_table_name n w) = clock w"
  "table_name (ctx (set_table_name n w)) = n"
  "stage_status (ctx (set_table_name n w)) = stage_status (ctx w)"
  "input_count (ctx (set_table_name n w)) = input_count (ctx w)"
  "error_count (ctx (set_table_name n w)) = error_count (ctx w)"
  "output_count (ctx (set_table_name n w)) = output_count (ctx w)"
  "start_time (ctx (set_table_name n w)) = start_time (ctx w)"
  "end_time (ctx (set_table_name n w)) = end_time (ctx w)"
  by (simp_all add: set_table_name_def)

lemma world_reset_context [simp]:
  "trace (reset_context env st n w) = trace w"
  "clock (reset_context env st n w) = clock w"
  "table_name (ctx (reset_context env st n w)) = table_name (ctx w)"
  "stage_status (ctx (reset_context env st n w)) = (\<lambda>s. default_stage_status)"
  "input_count (ctx (reset_context env st n w)) = n"
  "error_count (ctx (reset_context env st n w)) = default_count env"
  "output_count (ctx (reset_context env st n w)) = default_count env"
  "start_time (ctx (reset_context env st n w)) = (\<lambda>s. None)"
  "end_time (ctx (reset_context env st n w)) = (\<lambda>s. None)"
  by (simp_all add: reset_context_def)


lemma stage_calls_append [simp]: "stage_calls (xs @ ys) = stage_calls xs @ stage_calls ys"
  by (induction xs rule: stage_calls.induct) simp_all

lemma stage_events_append [simp]: "stage_events s (xs @ ys) = stage_events s xs @ stage_events s ys"
  by (simp add: stage_events_def)

lemmas step_defs =
  temp_table_step_def source_agg_dq_stage_def source_query_dq_stage_def row_dq_stage_def
  final_agg_dq_stage_def final_query_dq_stage_def write_final_table_def breach_check_def
  call_func_process_def

lemmas demo_defs = demo_env_def demo_func_process_def demo_settings_def demo_world_def demo_context_def

section \<open>The notification settings\<close>

lemma map_of_notification_dict:
  "map_of (notification_dict spark_conf) k =
     (case spark_conf of
        None \<Rightarrow> map_of default_notification_dict k
      | Some c \<Rightarrow> (case map_of c k of None \<Rightarrow> map_of default_notification_dict k | Some v \<Rightarrow> Some v))"
  by (cases spark_conf) (auto simp: notification_dict_def AList.merge_conv' map_add_def split: option.splits)

lemma bool_if_bool_eq: "bool_if_bool v = (isinstance_bool v \<and> v = PyBool True)"
  by (cases v) auto

lemma int_if_int_eq:
  "int_if_int v = (case v of PyInt n \<Rightarrow> n | PyBool b \<Rightarrow> (if b then 1 else 0) | _ \<Rightarrow> 100)"
  by (cases v) auto

lemma getitem_known:
  "getitem (notification_dict spark_conf) Se_notifications_on_start =
     Inr (value_in_force spark_conf Se_notifications_on_start)"
  "getitem (notification_dict spark_conf) Se_notifications_on_completion =
     Inr (value_in_force spark_conf Se_notifications_on_completion)"
  "getitem (notification_dict spark_conf) Se_notifications_on_fail =
     Inr (value_in_force spark_conf Se_notifications_on_fail)"
  "getitem (notification_dict spark_conf) Se_notifications_on_error_drop_exceeds_threshold_breach =
     Inr (value_in_force spark_conf Se_notifications_on_error_drop_exceeds_threshold_breach)"
  "getitem (notification_dict spark_conf) Se_notifications_on_error_drop_threshold =
     Inr (value_in_force spark_conf Se_notifications_on_error_drop_threshold)"
  by (simp_all add: getitem_def map_of_notification_dict value_in_force_def
        default_notification_dict_def split: option.splits)

lemma threshold_not_int:
  "\<not> isinstance_int (value_in_force spark_conf Se_notifications_on_error_drop_threshold) \<Longrightarrow>
   threshold_in_force spark_conf = 100"
  by (cases "value_in_force spark_conf Se_notifications_on_error_drop_threshold")
     (simp_all add: threshold_in_force_def)

text \<open>
  C10. The notification settings never raise and are, field by field, the value in
  force (the caller's entry, else the default) coerced as the claim says: a flag that
  is not a boolean becomes false, a threshold that is not an integer becomes 100.
  Without a configuration, or with an empty one, the settings are false, false,
  true, false and 100. An integer in Python's sense includes the booleans, which
  \<^verbatim>\<open>int\<close> turns into 0 and 1.
\<close>

theorem notification_settings_merge_defaults:
  "notification_settings spark_conf =
     Inr \<lparr>np_on_start = flag_in_force spark_conf Se_notifications_on_start,
          np_on_completion = flag_in_force spark_conf Se_notifications_on_completion,
          np_on_fail = flag_in_force spark_conf Se_notifications_on_fail,
          np_on_error_drop_exceeds_threshold_breach =
            flag_in_force spark_conf Se_notifications_on_error_drop_exceeds_threshold_breach,
          np_error_drop_threshold = threshold_in_force spark_conf\<rparr>
   \<and> (spark_conf = None \<or> spark_conf = Some [] \<longrightarrow>
        notification_settings spark_conf =
          Inr \<lparr>np_on_start = False, np_on_completion = False, np_on_fail = True,
               np_on_error_drop_exceeds_threshold_breach = False,
               np_error_drop_threshold = 100\<rparr>)
   \<and> (\<forall>k. \<not> isinstance_bool (value_in_force spark_conf k) \<longrightarrow> \<not> flag_in_force spark_conf k)
   \<and> (\<not> isinstance_int (value_in_force spark_conf Se_notifications_on_error_drop_threshold) \<longrightarrow>
        threshold_in_force spark_conf = 100)"
proof -
  have eq: "notification_settings spark_conf =
     Inr \<lparr>np_on_start = flag_in_force spark_conf Se_notifications_on_start,
          np_on_completion = flag_in_force spark_conf Se_notifications_on_completion,
          np_on_fail = flag_in_force spark_conf Se_notifications_on_fail,
          np_on_error_drop_exceeds_threshold_breach =
            flag_in_force spark_conf Se_notifications_on_error_drop_exceeds_threshold_breach,
          np_error_drop_threshold = threshold_in_force spark_conf\<rparr>"
    by (simp add: notification_settings_def getitem_known flag_in_force_def
          threshold_in_force_def bool_if_bool_eq int_if_int_eq)
  have dflt: "spark_conf = None \<or> spark_conf = Some [] \<longrightarrow>
        notification_settings spark_conf =
          Inr \<lparr>np_on_start = False, np_on_completion = False, np_on_fail = True,
               np_on_error_drop_exceeds_threshold_breach = False,
               np_error_drop_threshold = 100\<rparr>"
    by (auto simp: eq flag_in_force_def threshold_in_force_def value_in_force_def)
  have flags: "\<forall>k. \<not> isinstance_bool (value_in_force spark_conf k) \<longrightarrow> \<not> flag_in_force spark_conf k"
    by (simp add: flag_in_force_def)
  from eq dflt flags threshold_not_int show ?thesis by blast
qed

theorem notification_settings_merge_defaults_witness:
  "notification_settings
     (Some [(Se_notifications_on_start, PyBool True),
            (Se_notifications_on_fail, PyInt 1),
            (Se_notifications_on_error_drop_threshold, PyStr ''50'')]) =
     Inr \<lparr>np_on_start = True, np_on_completion = False, np_on_fail = False,
          np_on_error_drop_exceeds_threshold_breach = False,
          np_error_drop_threshold = 100\<rparr>
   \<and> notification_settings None =
     Inr \<lparr>np_on_start = False, np_on_completion = False, np_on_fail = True,
          np_on_error_drop_exceeds_threshold_breach = False,
          np_error_drop_threshold = 100\<rparr>"
  using notification_settings_merge_defaults
          [of "Some [(Se_notifications_on_start, PyBool True),
                     (Se_notifications_on_fail, PyInt 1),
                     (Se_notifications_on_error_drop_threshold, PyStr ''50'')]"]
        notification_settings_merge_defaults [of None]
  by (simp add: flag_in_force_def threshold_in_force_def value_in_force_def)

section \<open>A producer that does not return a dataframe\<close>

lemma wrapper_try_other_object:
  "wrapper_try env st (Inr (OtherObject c)) w =
     (case c of
        Inl e \<Rightarrow> (Inl e, w)
      | Inr n \<Rightarrow>
          (Inl (SparkExpectationsDataframeNotReturnedException
                  ''error occurred while processing spark expectations due to given dataframe is not type of dataframe''),
           reset_context env st n w))"
  by (simp add: wrapper_try_def Let_def split: sum.splits)

text \<open>
  C6. When the producer returns something that is not a dataframe, what reaches the
  caller is always the generic SparkExpectationsMiscException, never the dedicated
  SparkExpectationsDataframeNotReturnedException: the dedicated exception is raised
  inside the \<^verbatim>\<open>try\<close> block and rewrapped by the catch-all handler, and when
  \<^verbatim>\<open>_df.count()\<close> itself raises (the producer returned \<^verbatim>\<open>None\<close>) it is not even
  raised. No stage is evaluated.
\<close>

theorem non_dataframe_raises_generic_exception:
  "fst (wrapper env st (Inr (OtherObject c)) w) =
     Inl (SparkExpectationsMiscException
            (''error occurred while processing spark expectations '' @
             (case c of
                Inl e \<Rightarrow> exn_str e
              | Inr n \<Rightarrow> ''error occurred while processing spark expectations due to given dataframe is not type of dataframe'')))
   \<and> trace (snd (wrapper env st (Inr (OtherObject c)) w)) = trace w"
  by (cases c) (simp_all add: wrapper_def wrapper_try_other_object)

section \<open>The wrapper, step by step\<close>

lemma hoare_Nil: "(\<And>l w. P l w \<Longrightarrow> Q l w) \<Longrightarrow> hoare P [] Q E"
  by (simp add: hoare_def)

lemma hoare_step:
  "(\<And>l w r w'. P l w \<Longrightarrow> f l w = (r, w') \<Longrightarrow> (case r of Inl e \<Rightarrow> E e w' | Inr l' \<Rightarrow> Q l' w'))
   \<Longrightarrow> hoare P [f] Q E"
  unfolding hoare_def
proof (intro allI impI)
  fix l w r w'
  assume step: "\<And>l w r w'. P l w \<Longrightarrow> f l w = (r, w') \<Longrightarrow> (case r of Inl e \<Rightarrow> E e w' | Inr l' \<Rightarrow> Q l' w')"
    and P: "P l w" and run: "run_steps [f] l w = (r, w')"
  obtain r1 w1 where f: "f l w = (r1, w1)" by (cases "f l w")
  with run have "r = r1" "w' = w1" by (cases r1; simp)+
  with step[OF P f] show "case r of Inl e \<Rightarrow> E e w' | Inr l' \<Rightarrow> Q l' w'" by (cases r1) simp_all
qed

lemma hoare_Cons:
  assumes "hoare P [f] M E" and "hoare M fs Q E"
  shows "hoare P (f # fs) Q E"
  unfolding hoare_def
proof (intro allI impI)
  fix l w r w'
  assume P: "P l w" and run: "run_steps (f # fs) l w = (r, w')"
  obtain r1 w1 where f: "f l w = (r1, w1)" by (cases "f l w")
  have one: "run_steps [f] l w = (r1, w1)" using f by (cases r1) simp_all
  from assms(1) P one have mid: "case r1 of Inl e \<Rightarrow> E e w1 | Inr l' \<Rightarrow> M l' w1"
    by (simp add: hoare_def)
  show "case r of Inl e \<Rightarrow> E e w' | Inr l' \<Rightarrow> Q l' w'"
  proof (cases r1)
    case (Inl e)
    with run f have "r = Inl e" "w' = w1" by simp_all
    with mid Inl show ?thesis by simp
  next
    case (Inr l1)
    with run f have "run_steps fs l1 w1 = (r, w')" by simp
    moreover from mid Inr have "M l1 w1" by simp
    ultimately show ?thesis using assms(2) by (simp add: hoare_def)
  qed
qed

lemma hoare_invariant:
  assumes "\<And>f. f \<in> set fs \<Longrightarrow> hoare I [f] I E"
  shows "hoare I fs I E"
  using assms
proof (induction fs)
  case Nil
  then show ?case by (simp add: hoare_Nil)
next
  case (Cons f fs)
  have "hoare I [f] I E" using Cons.prems by simp
  moreover have "hoare I fs I E" using Cons by simp
  ultimately show ?case by (rule hoare_Cons)
qed

lemma hoareD:
  "hoare P fs Q E \<Longrightarrow> P l w \<Longrightarrow> run_steps fs l w = (r, w') \<Longrightarrow>
     (case r of Inl e \<Rightarrow> E e w' | Inr l' \<Rightarrow> Q l' w')"
  by (simp add: hoare_def)

lemma wrapper_dataframe:
  "wrapper env st (Inr (DataFrame d)) w =
     (case run_steps (dq_steps env st) (init_locals d (table_name (ctx w))) (init_world env st d w) of
        (Inl e, w') \<Rightarrow> (Inl (wrap_exn e), w')
      | (Inr l', w') \<Rightarrow> (Inr (l_row_dq_df l'), log_event Clear_cache w'))"
  by (simp add: wrapper_def wrapper_try_def dq_process_def init_locals_def init_world_def
        wrap_exn_def Let_def split: prod.splits sum.splits)

lemma wrapper_dataframeE:
  assumes "wrapper env st (Inr (DataFrame d)) w = (res, w')"
  obtains (raised) e where
      "run_steps (dq_steps env st) (init_locals d (table_name (ctx w))) (init_world env st d w) = (Inl e, w')"
      "res = Inl (wrap_exn e)"
    | (returned) l' w1 where
      "run_steps (dq_steps env st) (init_locals d (table_name (ctx w))) (init_world env st d w) = (Inr l', w1)"
      "res = Inr (l_row_dq_df l')" "w' = log_event Clear_cache w1"
  using assms unfolding wrapper_dataframe by (auto split: prod.splits sum.splits)

lemma world_init_world [simp]:
  "trace (init_world env st d w) = trace w"
  "clock (init_world env st d w) = clock w"
  "table_name (ctx (init_world env st d w)) = table_name (ctx w)"
  "stage_status (ctx (init_world env st d w)) = (\<lambda>s. default_stage_status)"
  "input_count (ctx (init_world env st d w)) = df_count env d"
  "start_time (ctx (init_world env st d w)) = (\<lambda>s. None)"
  "end_time (ctx (init_world env st d w)) = (\<lambda>s. None)"
  by (simp_all add: init_world_def)

lemma wrapper_not_dataframe:
  assumes "wrapper env st outcome w = (res, w')" and "\<forall>d. outcome \<noteq> Inr (DataFrame d)"
  shows "trace w' = trace w \<and> (\<exists>e. res = Inl e)"
proof (cases outcome)
  case (Inl e)
  with assms show ?thesis by (auto simp: wrapper_def wrapper_try_def)
next
  case (Inr obj)
  with assms obtain c where "obj = OtherObject c" by (cases obj) auto
  with Inr assms show ?thesis
    by (cases c) (auto simp: wrapper_def wrapper_try_def Let_def)
qed

lemma no_row_dq_invariant:
  assumes "\<not> row_dq st"
  shows "hoare (\<lambda>l w. l_row_dq_df l = None \<and> l_table_name l = tbl \<and>
                   (\<exists>new. trace w = t0 @ new \<and> no_final_write tbl new))
               (dq_steps env st)
               (\<lambda>l w. l_row_dq_df l = None \<and> l_table_name l = tbl \<and>
                   (\<exists>new. trace w = t0 @ new \<and> no_final_write tbl new))
               (\<lambda>e w. \<exists>new. trace w = t0 @ new \<and> no_final_write tbl new)"
proof (rule hoare_invariant)
  fix f :: "'a locals \<Rightarrow> ('a locals, 'a) action"
  assume "f \<in> set (dq_steps env st)"
  then consider "f = temp_table_step env st" | "f = source_agg_dq_stage env st"
    | "f = source_query_dq_stage env st" | "f = row_dq_stage env st"
    | "f = final_agg_dq_stage env st" | "f = final_query_dq_stage env st"
    | "f = write_final_table env st"
    by (auto simp: dq_steps_def)
  then show "hoare (\<lambda>l w. l_row_dq_df l = None \<and> l_table_name l = tbl \<and>
                   (\<exists>new. trace w = t0 @ new \<and> no_final_write tbl new)) [f]
               (\<lambda>l w. l_row_dq_df l = None \<and> l_table_name l = tbl \<and>
                   (\<exists>new. trace w = t0 @ new \<and> no_final_write tbl new))
               (\<lambda>e w. \<exists>new. trace w = t0 @ new \<and> no_final_write tbl new)"
  proof cases
    case 1
    show ?thesis unfolding 1
      by (rule hoare_step)
         (auto simp: temp_table_step_def no_final_write_def Let_def split: if_splits option.splits)
  next
    case 2
    show ?thesis unfolding 2
      by (rule hoare_step)
         (auto simp: source_agg_dq_stage_def call_func_process_def no_final_write_def
               split: if_splits sum.splits)
  next
    case 3
    show ?thesis unfolding 3
      by (rule hoare_step)
         (auto simp: source_query_dq_stage_def call_func_process_def no_final_write_def
               split: if_splits sum.splits)
  next
    case 4
    show ?thesis unfolding 4 using assms
      by (intro hoare_step) (auto simp: row_dq_stage_def)
  next
    case 5
    show ?thesis unfolding 5 using assms
      by (intro hoare_step) (auto simp: final_agg_dq_stage_def)
  next
    case 6
    show ?thesis unfolding 6 using assms
      by (intro hoare_step) (auto simp: final_query_dq_stage_def)
  next
    case 7
    show ?thesis unfolding 7 using assms
      by (intro hoare_step) (auto simp: write_final_table_def)
  qed
qed

text \<open>
  C9. With \<^verbatim>\<open>row_dq\<close> disabled the wrapper never returns a dataset (it returns
  \<^verbatim>\<open>None\<close> or raises), and nothing is written to the final table, whatever
  \<^verbatim>\<open>write_to_table\<close> says.
\<close>

theorem row_dq_disabled_returns_none:
  assumes "\<not> row_dq st" and "wrapper env st outcome w = (res, w')"
  shows "(\<forall>d. res \<noteq> Inr (Some d)) \<and>
         (\<exists>new. trace w' = trace w @ new \<and> (\<forall>x. Write_df_to_table x (table_name (ctx w)) \<notin> set new))"
proof (cases "\<exists>d. outcome = Inr (DataFrame d)")
  case False
  with wrapper_not_dataframe[OF assms(2)] show ?thesis by auto
next
  case True
  then obtain d where o: "outcome = Inr (DataFrame d)" by blast
  let ?tbl = "table_name (ctx w)"
  let ?I = "\<lambda>l w1. l_row_dq_df l = None \<and> l_table_name l = ?tbl \<and>
                   (\<exists>new. trace w1 = trace w @ new \<and> no_final_write ?tbl new)"
  have start: "?I (init_locals d ?tbl) (init_world env st d w)"
    by (simp add: init_locals_def no_final_write_def)
  note inv = hoareD[OF no_row_dq_invariant[OF assms(1), of ?tbl "trace w" env] start]
  from assms(2)[unfolded o] show ?thesis
  proof (cases rule: wrapper_dataframeE)
    case (raised e)
    from inv[OF raised(1)] raised(2) show ?thesis by (auto simp: no_final_write_def)
  next
    case (returned l' w1)
    from inv[OF returned(1)] returned(2,3) show ?thesis by (auto simp: no_final_write_def)
  qed
qed

lemma stage_events_simps [simp]:
  "stage_events s [] = []"
  "stage_events s (e # es) = (if about_stage s e then e # stage_events s es else stage_events s es)"
  by (simp_all add: stage_events_def)

lemma run_steps_append:
  "run_steps (fs @ gs) l w =
     (case run_steps fs l w of (Inl e, w1) \<Rightarrow> (Inl e, w1) | (Inr l1, w1) \<Rightarrow> run_steps gs l1 w1)"
  by (induction fs arbitrary: l w) (auto split: prod.splits sum.splits)

lemma frames_run:
  assumes "\<forall>f\<in>set fs. frames s f" and "run_steps fs l w = (r, w')"
  shows "(\<exists>new. trace w' = trace w @ new \<and> stage_events s new = []) \<and>
         stage_status (ctx w') s = stage_status (ctx w) s \<and>
         start_time (ctx w') s = start_time (ctx w) s \<and>
         end_time (ctx w') s = end_time (ctx w) s"
  using assms
proof (induction fs arbitrary: l w)
  case Nil
  then show ?case by simp
next
  case (Cons f fs)
  obtain r1 w1 where f: "f l w = (r1, w1)" by (cases "f l w")
  from Cons.prems(1) have "frames s f" by simp
  with f have step: "(\<exists>new. trace w1 = trace w @ new \<and> stage_events s new = []) \<and>
         stage_status (ctx w1) s = stage_status (ctx w) s \<and>
         start_time (ctx w1) s = start_time (ctx w) s \<and>
         end_time (ctx w1) s = end_time (ctx w) s"
    unfolding frames_def by blast
  show ?case
  proof (cases r1)
    case (Inl e)
    with Cons.prems(2) f have "w' = w1" by simp
    with step show ?thesis by simp
  next
    case (Inr l1)
    with Cons.prems(2) f have "run_steps fs l1 w1 = (r, w')" by simp
    with Cons.IH[of l1 w1] Cons.prems(1)
    have rest: "(\<exists>new. trace w' = trace w1 @ new \<and> stage_events s new = []) \<and>
         stage_status (ctx w') s = stage_status (ctx w1) s \<and>
         start_time (ctx w') s = start_time (ctx w1) s \<and>
         end_time (ctx w') s = end_time (ctx w1) s" by simp
    from step obtain n1 where n1: "trace w1 = trace w @ n1" "stage_events s n1 = []" by blast
    from rest obtain n2 where n2: "trace w' = trace w1 @ n2" "stage_events s n2 = []" by blast
    have "trace w' = trace w @ (n1 @ n2) \<and> stage_events s (n1 @ n2) = []"
      using n1 n2 by simp
    with step rest show ?thesis by metis
  qed
qed

lemma frames_temp_table_step: "frames s (temp_table_step env st)"
  by (auto simp: frames_def temp_table_step_def stage_events_def Let_def split: if_splits option.splits)

lemma frames_write_final_table: "frames s (write_final_table env st)"
  by (auto simp: frames_def write_final_table_def stage_events_def Let_def split: if_splits option.splits)

lemma frames_source_agg_dq_stage:
  "s \<noteq> Source_agg_dq \<or> \<not> eligible st s \<Longrightarrow> frames s (source_agg_dq_stage env st)"
  by (auto simp: frames_def source_agg_dq_stage_def call_func_process_def stage_events_def
           split: if_splits sum.splits)

lemma frames_source_query_dq_stage:
  "s \<noteq> Source_query_dq \<or> \<not> eligible st s \<Longrightarrow> frames s (source_query_dq_stage env st)"
  by (auto simp: frames_def source_query_dq_stage_def call_func_process_def stage_events_def
           split: if_splits sum.splits)

lemma frames_row_dq_stage:
  "s \<noteq> Row_dq \<or> \<not> eligible st s \<Longrightarrow> frames s (row_dq_stage env st)"
  by (auto simp: frames_def row_dq_stage_def breach_check_def call_func_process_def
           stage_events_def Let_def split: if_splits sum.splits option.splits)

lemma frames_final_agg_dq_stage:
  "s \<noteq> Final_agg_dq \<or> \<not> eligible st s \<Longrightarrow> frames s (final_agg_dq_stage env st)"
  by (auto simp: frames_def final_agg_dq_stage_def call_func_process_def stage_events_def
           split: if_splits sum.splits)

lemma frames_final_query_dq_stage:
  "s \<noteq> Final_query_dq \<or> \<not> eligible st s \<Longrightarrow> frames s (final_query_dq_stage env st)"
  by (auto simp: frames_def final_query_dq_stage_def call_func_process_def stage_events_def
           Let_def split: if_splits sum.splits option.splits)

lemma ineligible_frames_all:
  assumes "\<not> eligible st s"
  shows "\<forall>f\<in>set (dq_steps env st). frames s f"
  using assms
  by (simp add: dq_steps_def frames_temp_table_step frames_write_final_table
        frames_source_agg_dq_stage frames_source_query_dq_stage frames_row_dq_stage
        frames_final_agg_dq_stage frames_final_query_dq_stage)

lemma dq_steps_split:
  "dq_steps env st = steps_before env st s @ stage_step env st s # steps_after env st s"
  by (cases s) (simp_all add: dq_steps_def)

lemmas frames_steps = frames_temp_table_step frames_write_final_table
  frames_source_agg_dq_stage frames_source_query_dq_stage frames_row_dq_stage
  frames_final_agg_dq_stage frames_final_query_dq_stage

lemma frames_steps_before: "\<forall>f\<in>set (steps_before env st s). frames s f"
  by (cases s) (simp_all add: frames_steps)

lemma frames_steps_after: "\<forall>f\<in>set (steps_after env st s). frames s f"
  by (cases s) (simp_all add: frames_steps)

lemma stage_outcome_protocol:
  "stage_outcome env st s new r status started ended \<Longrightarrow>
   stage_protocol env s (stage_events s new) status started ended"
  unfolding stage_outcome_def stage_protocol_def by blast

lemma stage_step_outcome:
  assumes "stage_step env st s l w = (r, w')"
    and "start_time (ctx w) s = None" and "end_time (ctx w) s = None"
  shows "\<exists>new. trace w' = trace w @ new \<and>
           stage_outcome env st s new r (stage_status (ctx w') s)
             (start_time (ctx w') s) (end_time (ctx w') s)"
proof (cases s)
  case Source_agg_dq
  with assms show ?thesis
    by (auto simp: source_agg_dq_stage_def call_func_process_def stage_outcome_def
             split: if_splits sum.splits)
next
  case Source_query_dq
  with assms show ?thesis
    by (auto simp: source_query_dq_stage_def call_func_process_def stage_outcome_def
             split: if_splits sum.splits)
next
  case Row_dq
  with assms show ?thesis
    by (auto simp: row_dq_stage_def breach_check_def call_func_process_def stage_outcome_def
             Let_def split: if_splits sum.splits option.splits)
next
  case Final_agg_dq
  with assms show ?thesis
    by (auto simp: final_agg_dq_stage_def call_func_process_def stage_outcome_def
             split: if_splits sum.splits)
next
  case Final_query_dq
  with assms show ?thesis
    by (auto simp: final_query_dq_stage_def call_func_process_def stage_outcome_def
             Let_def split: if_splits sum.splits option.splits)
qed

lemma stage_outcome_frame_left:
  assumes "stage_outcome env st s n2 r v a b" and "stage_events s n1 = []"
  shows "stage_outcome env st s (n1 @ n2) r v a b"
proof -
  have "last (n1 @ n2) = last n2" if "stage_events s n2 \<noteq> []"
  proof -
    from that have "n2 \<noteq> []" by auto
    then show ?thesis by simp
  qed
  with assms show ?thesis unfolding stage_outcome_def by auto
qed

lemma stage_outcome_frame_right:
  assumes "stage_outcome env st s n2 (Inr l2) v a b" and "stage_events s n3 = []"
  shows "stage_outcome env st s (n2 @ n3) r v a b"
  using assms unfolding stage_outcome_def by auto

lemma stage_outcome_run:
  assumes run: "run_steps (dq_steps env st) l w = (r, w')"
    and t0: "start_time (ctx w) s = None" "end_time (ctx w) s = None"
  shows "\<exists>new. trace w' = trace w @ new \<and>
           stage_outcome env st s new r (stage_status (ctx w') s)
             (start_time (ctx w') s) (end_time (ctx w') s)"
proof -
  obtain r1 w1 where pre: "run_steps (steps_before env st s) l w = (r1, w1)"
    by (cases "run_steps (steps_before env st s) l w")
  from frames_run[OF frames_steps_before pre]
  obtain n1 where n1: "trace w1 = trace w @ n1" "stage_events s n1 = []"
    and c1: "stage_status (ctx w1) s = stage_status (ctx w) s"
      "start_time (ctx w1) s = start_time (ctx w) s" "end_time (ctx w1) s = end_time (ctx w) s"
    by blast
  note split = run[unfolded dq_steps_split[of env st s] run_steps_append pre]
  show ?thesis
  proof (cases r1)
    case (Inl e)
    with split have "w' = w1" by simp
    with n1 show ?thesis by (auto simp: stage_outcome_def)
  next
    case (Inr l1)
    obtain r2 w2 where own: "stage_step env st s l1 w1 = (r2, w2)"
      by (cases "stage_step env st s l1 w1")
    from stage_step_outcome[OF own] c1 t0
    obtain n2 where n2: "trace w2 = trace w1 @ n2"
      and p2: "stage_outcome env st s n2 r2 (stage_status (ctx w2) s)
             (start_time (ctx w2) s) (end_time (ctx w2) s)"
      by auto
    show ?thesis
    proof (cases r2)
      case (Inl e)
      with split Inr own have eq: "w' = w2" "r = r2" by simp_all
      from stage_outcome_frame_left[OF p2 n1(2)] eq
      have "stage_outcome env st s (n1 @ n2) r (stage_status (ctx w') s)
             (start_time (ctx w') s) (end_time (ctx w') s)" by simp
      moreover have "trace w' = trace w @ (n1 @ n2)" using n1 n2 eq by simp
      ultimately show ?thesis by blast
    next
      case (Inr l2)
      with split \<open>r1 = Inr l1\<close> own
      have post: "run_steps (steps_after env st s) l2 w2 = (r, w')" by simp
      from frames_run[OF frames_steps_after post]
      obtain n3 where n3: "trace w' = trace w2 @ n3" "stage_events s n3 = []"
        and c3: "stage_status (ctx w') s = stage_status (ctx w2) s"
          "start_time (ctx w') s = start_time (ctx w2) s" "end_time (ctx w') s = end_time (ctx w2) s"
        by blast
      from p2 Inr c3 have "stage_outcome env st s n2 (Inr l2) (stage_status (ctx w') s)
             (start_time (ctx w') s) (end_time (ctx w') s)" by simp
      from stage_outcome_frame_left[OF stage_outcome_frame_right[OF this n3(2)] n1(2)]
      have "stage_outcome env st s (n1 @ n2 @ n3) r (stage_status (ctx w') s)
             (start_time (ctx w') s) (end_time (ctx w') s)" .
      moreover have "trace w' = trace w @ (n1 @ n2 @ n3)" using n1 n2 n3 by simp
      ultimately show ?thesis by blast
    qed
  qed
qed

lemma stage_protocol_run:
  assumes run: "run_steps (dq_steps env st) l w = (r, w')"
    and t0: "start_time (ctx w) s = None" "end_time (ctx w) s = None"
  shows "\<exists>new. trace w' = trace w @ new \<and>
           stage_protocol env s (stage_events s new) (stage_status (ctx w') s)
             (start_time (ctx w') s) (end_time (ctx w') s)"
  using stage_outcome_run[OF assms] stage_outcome_protocol by blast


text \<open>
  Without \<^verbatim>\<open>row_dq\<close>: no event of the two final stages, and their status once the
  context was reset.
\<close>

lemma no_row_dq_final_stages:
  assumes "\<not> row_dq st" and "wrapper env st outcome w = (res, w')"
  shows "\<exists>new. trace w' = trace w @ new \<and>
           stage_events Final_agg_dq new = [] \<and> stage_events Final_query_dq new = [] \<and>
           ((\<exists>obj n. outcome = Inr obj \<and> count_of env obj = Inr n) \<longrightarrow>
              stage_status (ctx w') Final_agg_dq = ''Skipped'' \<and>
              stage_status (ctx w') Final_query_dq = ''Skipped'')"
proof (cases "\<exists>d. outcome = Inr (DataFrame d)")
  case False
  from wrapper_not_dataframe[OF assms(2)] False have tr: "trace w' = trace w @ []" by simp
  have "stage_status (ctx w') s = ''Skipped''"
    if "outcome = Inr obj" "count_of env obj = Inr n" for obj n s
  proof -
    from that False obtain c where "obj = OtherObject c" by (cases obj) auto
    with that assms(2) show ?thesis
      by (auto simp: wrapper_def wrapper_try_other_object default_stage_status_def)
  qed
  with tr show ?thesis by (metis stage_events_simps(1))
next
  case True
  then obtain d where o: "outcome = Inr (DataFrame d)" by blast
  have ne: "\<not> eligible st Final_agg_dq" "\<not> eligible st Final_query_dq" using assms(1) by simp_all
  have key: "\<exists>new. trace w1 = trace w @ new \<and>
           stage_events Final_agg_dq new = [] \<and> stage_events Final_query_dq new = [] \<and>
           stage_status (ctx w1) Final_agg_dq = ''Skipped'' \<and>
           stage_status (ctx w1) Final_query_dq = ''Skipped''"
    if run: "run_steps (dq_steps env st) (init_locals d (table_name (ctx w))) (init_world env st d w) = (r, w1)"
    for r w1
  proof -
    from frames_run[OF ineligible_frames_all[OF ne(1)] run]
    obtain n1 where a: "trace w1 = trace w @ n1" "stage_events Final_agg_dq n1 = []"
      "stage_status (ctx w1) Final_agg_dq = ''Skipped''"
      by (auto simp: default_stage_status_def)
    from frames_run[OF ineligible_frames_all[OF ne(2)] run]
    obtain n2 where b: "trace w1 = trace w @ n2" "stage_events Final_query_dq n2 = []"
      "stage_status (ctx w1) Final_query_dq = ''Skipped''"
      by (auto simp: default_stage_status_def)
    from a(1) b(1) have "n1 = n2" by simp
    with a b show ?thesis by blast
  qed
  from assms(2)[unfolded o] show ?thesis
  proof (cases rule: wrapper_dataframeE)
    case (raised e)
    from key[OF raised(1)] show ?thesis by blast
  next
    case (returned l' w1)
    from key[OF returned(1)] obtain new where n: "trace w1 = trace w @ new"
      "stage_events Final_agg_dq new = []" "stage_events Final_query_dq new = []"
      "stage_status (ctx w1) Final_agg_dq = ''Skipped''"
      "stage_status (ctx w1) Final_query_dq = ''Skipped''" by blast
    have "trace w' = trace w @ (new @ [Clear_cache])" using n(1) returned(3) by simp
    moreover have "stage_events Final_agg_dq (new @ [Clear_cache]) = []"
      "stage_events Final_query_dq (new @ [Clear_cache]) = []" using n by simp_all
    moreover have "stage_status (ctx w') Final_agg_dq = ''Skipped''"
      "stage_status (ctx w') Final_query_dq = ''Skipped''" using n returned(3) by simp_all
    ultimately show ?thesis by blast
  qed
qed

lemma wrapper_before_reset:
  assumes "wrapper env st outcome w = (res, w')"
    and "\<not> (\<exists>obj n. outcome = Inr obj \<and> count_of env obj = Inr n)"
  shows "w' = w"
proof (cases outcome)
  case (Inl e)
  with assms(1) show ?thesis by (auto simp: wrapper_def wrapper_try_def)
next
  case (Inr obj)
  with assms(2) obtain e where "count_of env obj = Inl e" by (cases "count_of env obj") auto
  with Inr assms(1) show ?thesis by (auto simp: wrapper_def wrapper_try_def)
qed


lemma hoare_conseq:
  assumes "hoare P fs Q E"
    and "\<And>l w. P' l w \<Longrightarrow> P l w"
    and "\<And>l w. Q l w \<Longrightarrow> Q' l w"
    and "\<And>e w. E e w \<Longrightarrow> E' e w"
  shows "hoare P' fs Q' E'"
  unfolding hoare_def
proof (intro allI impI)
  fix l w r w'
  assume "P' l w" and run: "run_steps fs l w = (r, w')"
  then have "P l w" using assms(2) by simp
  with assms(1) run have "case r of Inl e \<Rightarrow> E e w' | Inr l' \<Rightarrow> Q l' w'" by (simp add: hoare_def)
  then show "case r of Inl e \<Rightarrow> E' e w' | Inr l' \<Rightarrow> Q' l' w'"
    using assms(3,4) by (cases r) simp_all
qed

lemma stage_plan_segs:
  "stage_plan st raw rowdf =
     seg st raw rowdf Source_agg_dq @ seg st raw rowdf Source_query_dq @ seg st raw rowdf Row_dq @
     seg st raw rowdf Final_agg_dq @ seg st raw rowdf Final_query_dq"
  by (simp add: stage_plan_def stage_order_def seg_def)

lemma calls_are_extend:
  "calls_are t0 cs w \<Longrightarrow> trace w' = trace w @ es \<Longrightarrow> calls_are t0 (cs @ stage_calls es) w'"
  by (auto simp: calls_are_def)

lemma calls_chain_Cons:
  assumes one: "hoare (\<lambda>l w. L l \<and> calls_are t0 cs w) [f]
                  (\<lambda>l w. L' l \<and> calls_are t0 (cs @ sg) w) (\<lambda>e. calls_within t0 cs sg)"
    and rest: "hoare (\<lambda>l w. L' l \<and> calls_are t0 (cs @ sg) w) fs
                  (\<lambda>l w. L'' l \<and> calls_are t0 ((cs @ sg) @ rst) w)
                  (\<lambda>e. calls_within t0 (cs @ sg) rst)"
  shows "hoare (\<lambda>l w. L l \<and> calls_are t0 cs w) (f # fs)
           (\<lambda>l w. L'' l \<and> calls_are t0 (cs @ sg @ rst) w) (\<lambda>e. calls_within t0 cs (sg @ rst))"
proof (rule hoare_Cons)
  show "hoare (\<lambda>l w. L l \<and> calls_are t0 cs w) [f] (\<lambda>l w. L' l \<and> calls_are t0 (cs @ sg) w)
          (\<lambda>e. calls_within t0 cs (sg @ rst))"
    by (rule hoare_conseq[OF one]) (auto simp: calls_within_def)
  show "hoare (\<lambda>l w. L' l \<and> calls_are t0 (cs @ sg) w) fs
          (\<lambda>l w. L'' l \<and> calls_are t0 (cs @ sg @ rst) w) (\<lambda>e. calls_within t0 cs (sg @ rst))"
  proof (rule hoare_conseq[OF rest])
    fix e w assume "calls_within t0 (cs @ sg) rst w"
    then obtain c where "calls_are t0 ((cs @ sg) @ c) w" "prefix c rst"
      by (auto simp: calls_within_def)
    then have "calls_are t0 (cs @ (sg @ c)) w" "prefix (sg @ c) (sg @ rst)" by simp_all
    then show "calls_within t0 cs (sg @ rst) w" unfolding calls_within_def by blast
  qed simp_all
qed

lemma calls_temp_table_step:
  "hoare (\<lambda>l w. (l_df l = d \<and> l_table_name l = tbl \<and> l_row_dq_df l = None) \<and> calls_are t0 cs w)
         [temp_table_step env st]
         (\<lambda>l w. (l_df l = raw_dataset env st tbl d \<and> l_row_dq_df l = None) \<and> calls_are t0 (cs @ []) w)
         (\<lambda>e. calls_within t0 cs [])"
  by (rule hoare_step)
     (auto simp: temp_table_step_def raw_dataset_def calls_within_def calls_are_def Let_def
           split: if_splits option.splits)

lemma calls_source_agg_dq_stage:
  "hoare (\<lambda>l w. (l_df l = raw \<and> l_row_dq_df l = None) \<and> calls_are t0 cs w)
         [source_agg_dq_stage env st]
         (\<lambda>l w. (l_df l = raw \<and> l_row_dq_df l = None) \<and> calls_are t0 (cs @ seg st raw rowdf Source_agg_dq) w)
         (\<lambda>e. calls_within t0 cs (seg st raw rowdf Source_agg_dq))"
  by (rule hoare_step)
     (auto simp: source_agg_dq_stage_def call_func_process_def seg_def calls_within_def
           calls_are_def split: if_splits sum.splits)

lemma calls_source_query_dq_stage:
  "hoare (\<lambda>l w. (l_df l = raw \<and> l_row_dq_df l = None) \<and> calls_are t0 cs w)
         [source_query_dq_stage env st]
         (\<lambda>l w. (l_df l = raw \<and> l_row_dq_df l = None) \<and> calls_are t0 (cs @ seg st raw rowdf Source_query_dq) w)
         (\<lambda>e. calls_within t0 cs (seg st raw rowdf Source_query_dq))"
  by (rule hoare_step)
     (auto simp: source_query_dq_stage_def call_func_process_def seg_def calls_within_def
           calls_are_def split: if_splits sum.splits)

lemma calls_row_dq_stage:
  "hoare (\<lambda>l w. (l_df l = raw \<and> l_row_dq_df l = None) \<and> calls_are t0 cs w)
         [row_dq_stage env st]
         (\<lambda>l w. (l_row_dq_df l = (if row_dq st then row_filtered_dataset env raw else None))
                 \<and> calls_are t0 (cs @ seg st raw rowdf Row_dq) w)
         (\<lambda>e. calls_within t0 cs (seg st raw rowdf Row_dq))"
  by (rule hoare_step)
     (auto simp: row_dq_stage_def breach_check_def call_func_process_def seg_def calls_within_def
           calls_are_def row_filtered_dataset_def Let_def
           split: if_splits sum.splits option.splits)

lemma calls_final_agg_dq_stage:
  "hoare (\<lambda>l w. (l_row_dq_df l = (if row_dq st then rowdf else None)) \<and> calls_are t0 cs w)
         [final_agg_dq_stage env st]
         (\<lambda>l w. (l_row_dq_df l = (if row_dq st then rowdf else None))
                 \<and> calls_are t0 (cs @ seg st raw rowdf Final_agg_dq) w)
         (\<lambda>e. calls_within t0 cs (seg st raw rowdf Final_agg_dq))"
  by (rule hoare_step)
     (auto simp: final_agg_dq_stage_def call_func_process_def seg_def calls_within_def
           calls_are_def split: if_splits sum.splits)

lemma calls_final_query_dq_stage:
  "hoare (\<lambda>l w. (l_row_dq_df l = (if row_dq st then rowdf else None)) \<and> calls_are t0 cs w)
         [final_query_dq_stage env st]
         (\<lambda>l w. True \<and> calls_are t0 (cs @ seg st raw rowdf Final_query_dq) w)
         (\<lambda>e. calls_within t0 cs (seg st raw rowdf Final_query_dq))"
  by (rule hoare_step)
     (auto simp: final_query_dq_stage_def call_func_process_def seg_def calls_within_def
           calls_are_def Let_def split: if_splits sum.splits option.splits)

lemma calls_write_final_table:
  "hoare (\<lambda>l w. True \<and> calls_are t0 cs w)
         [write_final_table env st]
         (\<lambda>l w. True \<and> calls_are t0 (cs @ []) w)
         (\<lambda>e. calls_within t0 cs [])"
  by (rule hoare_step)
     (auto simp: write_final_table_def calls_within_def calls_are_def Let_def
           split: if_splits option.splits)

lemma calls_dq_steps:
  "hoare (\<lambda>l w. (l_df l = d \<and> l_table_name l = tbl \<and> l_row_dq_df l = None) \<and> calls_are t0 [] w)
         (dq_steps env st)
         (\<lambda>l w. True \<and>
            calls_are t0
              ([] @ [] @ seg st (raw_dataset env st tbl d) (row_filtered_dataset env (raw_dataset env st tbl d)) Source_agg_dq @
               seg st (raw_dataset env st tbl d) (row_filtered_dataset env (raw_dataset env st tbl d)) Source_query_dq @
               seg st (raw_dataset env st tbl d) (row_filtered_dataset env (raw_dataset env st tbl d)) Row_dq @
               seg st (raw_dataset env st tbl d) (row_filtered_dataset env (raw_dataset env st tbl d)) Final_agg_dq @
               seg st (raw_dataset env st tbl d) (row_filtered_dataset env (raw_dataset env st tbl d)) Final_query_dq @ []) w)
         (\<lambda>e. calls_within t0 []
              ([] @ seg st (raw_dataset env st tbl d) (row_filtered_dataset env (raw_dataset env st tbl d)) Source_agg_dq @
               seg st (raw_dataset env st tbl d) (row_filtered_dataset env (raw_dataset env st tbl d)) Source_query_dq @
               seg st (raw_dataset env st tbl d) (row_filtered_dataset env (raw_dataset env st tbl d)) Row_dq @
               seg st (raw_dataset env st tbl d) (row_filtered_dataset env (raw_dataset env st tbl d)) Final_agg_dq @
               seg st (raw_dataset env st tbl d) (row_filtered_dataset env (raw_dataset env st tbl d)) Final_query_dq @ []))"
  unfolding dq_steps_def
  apply (rule calls_chain_Cons[OF calls_temp_table_step])
  apply (rule calls_chain_Cons[OF calls_source_agg_dq_stage])
  apply (rule calls_chain_Cons[OF calls_source_query_dq_stage])
  apply (rule calls_chain_Cons[OF calls_row_dq_stage])
  apply (rule calls_chain_Cons[OF calls_final_agg_dq_stage])
  apply (rule calls_chain_Cons[OF calls_final_query_dq_stage])
  apply (rule calls_write_final_table)
  done

text \<open>
  The evaluations of a run whose producer returned a dataframe, read off the trace:
  an initial segment of the plan, and the whole plan when the run returns.
\<close>

lemma dataframe_run_calls:
  assumes "wrapper env st (Inr (DataFrame d)) w = (res, w')"
  shows "\<exists>new. trace w' = trace w @ new \<and>
           prefix (stage_calls new)
             (stage_plan st (raw_dataset env st (table_name (ctx w)) d)
                (row_filtered_dataset env (raw_dataset env st (table_name (ctx w)) d))) \<and>
           ((\<exists>v. res = Inr v) \<longrightarrow>
              stage_calls new =
                stage_plan st (raw_dataset env st (table_name (ctx w)) d)
                  (row_filtered_dataset env (raw_dataset env st (table_name (ctx w)) d)))"
proof -
  let ?tbl = "table_name (ctx w)"
  let ?plan = "stage_plan st (raw_dataset env st ?tbl d)
                (row_filtered_dataset env (raw_dataset env st ?tbl d))"
  have start: "(l_df (init_locals d ?tbl) = d \<and> l_table_name (init_locals d ?tbl) = ?tbl \<and>
                l_row_dq_df (init_locals d ?tbl) = None) \<and>
               calls_are (trace w) [] (init_world env st d w)"
    by (simp add: init_locals_def calls_are_def)
  note h = hoareD[OF calls_dq_steps start]
  from assms show ?thesis
  proof (cases rule: wrapper_dataframeE)
    case (raised e)
    from h[OF raised(1)] have "calls_within (trace w) [] ?plan w'"
      by (simp add: stage_plan_segs)
    with raised(2) show ?thesis by (auto simp: calls_within_def calls_are_def)
  next
    case (returned l' w1)
    from h[OF returned(1)] have "calls_are (trace w) ?plan w1"
      by (simp add: stage_plan_segs)
    then obtain new where "trace w1 = trace w @ new" "stage_calls new = ?plan"
      by (auto simp: calls_are_def)
    then have "trace w' = trace w @ (new @ [Clear_cache])"
      "stage_calls (new @ [Clear_cache]) = ?plan" using returned(3) by simp_all
    then show ?thesis by (metis prefix_order.refl)
  qed
qed

text \<open>
  C1. In every run the stage evaluations the wrapper makes, read off the trace in
  order and each with the dataset it was given, are an initial segment of the plan:
  the stages whose flag conjunction holds, in the order source_agg, source_query,
  row, final_agg, final_query, the first three on the raw dataset (the copy read
  back from the temp table when \<^verbatim>\<open>write_to_temp_table\<close> is set) and the last two on
  the dataset the row stage returned. When the run returns, they are the whole plan:
  a stage then ran exactly when its flags held. A run that an exception cuts short
  stops inside the plan, so that a later stage whose flags hold does not run; a run
  whose producer did not return a dataframe evaluates no stage and raises.
\<close>

theorem stages_run_when_enabled_in_order:
  assumes "wrapper env st outcome w = (res, w')"
  shows "\<exists>new. trace w' = trace w @ new \<and>
           (\<forall>d. outcome = Inr (DataFrame d) \<longrightarrow>
              prefix (stage_calls new)
                (stage_plan st (raw_dataset env st (table_name (ctx w)) d)
                   (row_filtered_dataset env (raw_dataset env st (table_name (ctx w)) d))) \<and>
              ((\<exists>v. res = Inr v) \<longrightarrow>
                 stage_calls new =
                   stage_plan st (raw_dataset env st (table_name (ctx w)) d)
                     (row_filtered_dataset env (raw_dataset env st (table_name (ctx w)) d)))) \<and>
           ((\<forall>d. outcome \<noteq> Inr (DataFrame d)) \<longrightarrow> new = [] \<and> (\<exists>e. res = Inl e))"
proof (cases "\<exists>d. outcome = Inr (DataFrame d)")
  case True
  then obtain d where o: "outcome = Inr (DataFrame d)" by blast
  from dataframe_run_calls[OF assms[unfolded o]] obtain new where
    "trace w' = trace w @ new"
    "prefix (stage_calls new)
       (stage_plan st (raw_dataset env st (table_name (ctx w)) d)
          (row_filtered_dataset env (raw_dataset env st (table_name (ctx w)) d)))"
    "(\<exists>v. res = Inr v) \<longrightarrow>
       stage_calls new =
         stage_plan st (raw_dataset env st (table_name (ctx w)) d)
           (row_filtered_dataset env (raw_dataset env st (table_name (ctx w)) d))"
    by blast
  with o show ?thesis by (intro exI[of _ new]) simp
next
  case False
  with wrapper_not_dataframe[OF assms] have "trace w' = trace w @ []" "\<exists>e. res = Inl e"
    by simp_all
  with False show ?thesis by (intro exI[of _ "[]"]) simp
qed

lemma raised_call_outcome:
  assumes "stage_outcome env st s new r v a b"
    and "Func_process s d kw \<in> set new"
    and "func_process env d (rule_type_name s) s kw = Inl e"
  shows "r = Inl e \<and> last new = Func_process s d kw"
proof -
  from assms(2) have "Func_process s d kw \<in> set (stage_events s new)"
    by (simp add: stage_events_def)
  with assms(1,3) show ?thesis unfolding stage_outcome_def by auto
qed

lemma wrapper_is_misc:
  assumes "wrapper env st outcome w = (Inl e, w')"
  shows "is_misc e"
  using assms by (auto simp: wrapper_def split: prod.splits sum.splits)


lemma stage_calls_mem:
  "(s, x) \<in> set (stage_calls es) \<longleftrightarrow> (\<exists>kw. Func_process s x kw \<in> set es)"
  by (induction es rule: stage_calls.induct) auto

lemma stage_events_mem:
  "e \<in> set (stage_events s es) \<longleftrightarrow> e \<in> set es \<and> about_stage s e"
  by (simp add: stage_events_def)

lemma final_query_in_plan:
  "(Final_query_dq, x) \<in> set (stage_plan st raw rowdf) \<Longrightarrow> x = rowdf"
  by (auto simp: stage_plan_def stage_order_def)

lemma eligible_in_plan:
  "eligible st s \<Longrightarrow> (s, stage_input raw rowdf s) \<in> set (stage_plan st raw rowdf)"
  by (cases s) (auto simp: stage_plan_def stage_order_def)

lemma stage_outcome_no_call:
  assumes out: "stage_outcome env st s new r v a b"
    and nf: "\<forall>x kw. Func_process s x kw \<notin> set new"
    and ev: "Set_start_time s \<in> set new"
  shows "r = Inl (SparkExpectationsMiscException
                    ''final table view name is not supplied to run query dq'') \<and>
         last new = Set_start_time s"
proof -
  from ev have ev': "Set_start_time s \<in> set (stage_events s new)"
    by (simp add: stage_events_mem)
  have nf': "Func_process s x kw \<notin> set (stage_events s new)" for x kw
    using nf by (simp add: stage_events_mem)
  from out consider
      (none) "stage_events s new = []"
    | (view) "r = Inl (SparkExpectationsMiscException
                    ''final table view name is not supplied to run query dq'')"
             "last new = Set_start_time s"
    | (called) d kw where "Func_process s d kw \<in> set (stage_events s new)"
    unfolding stage_outcome_def by auto
  then show ?thesis
  proof cases
    case none
    with ev' show ?thesis by simp
  next
    case view
    then show ?thesis by simp
  next
    case (called d kw)
    with nf' show ?thesis by blast
  qed
qed

text \<open>
  C5. When the final_query stage is eligible and there is no view name or the row
  stage returned no dataset, the final-query evaluation is never invoked and the run
  raises; when the run gets as far as the final_query stage, what it raises is the
  error "final table view name is not supplied to run query dq" (wrapped by the
  catch-all handler), raised right after the stage's start time was recorded.
\<close>

theorem final_query_without_view_is_configuration_error:
  assumes run: "wrapper env st (Inr (DataFrame d)) w = (res, w')"
    and el: "eligible st Final_query_dq"
    and nv: "target_table_view st = [] \<or>
             row_filtered_dataset env (raw_dataset env st (table_name (ctx w)) d) = None"
  shows "\<exists>new. trace w' = trace w @ new \<and>
           (\<forall>x kw. Func_process Final_query_dq x kw \<notin> set new) \<and>
           (\<exists>e. res = Inl e) \<and>
           (Set_start_time Final_query_dq \<in> set new \<longrightarrow>
              res = Inl (SparkExpectationsMiscException
                (''error occurred while processing spark expectations '' @
                 ''final table view name is not supplied to run query dq'')) \<and>
              last new = Set_start_time Final_query_dq)"
proof -
  let ?tbl = "table_name (ctx w)"
  let ?raw = "raw_dataset env st ?tbl d"
  let ?rowdf = "row_filtered_dataset env ?raw"
  let ?plan = "stage_plan st ?raw ?rowdf"
  let ?msg = "''final table view name is not supplied to run query dq''"
  have start: "(l_df (init_locals d ?tbl) = d \<and> l_table_name (init_locals d ?tbl) = ?tbl \<and>
                l_row_dq_df (init_locals d ?tbl) = None) \<and>
               calls_are (trace w) [] (init_world env st d w)"
    by (simp add: init_locals_def calls_are_def)
  note h = hoareD[OF calls_dq_steps start]
  have no_call: False
    if "trace w1 = trace w @ new" "prefix (stage_calls new) ?plan"
       "Func_process Final_query_dq x kw \<in> set new" "call_ok st Final_query_dq x"
    for w1 :: "'a world" and new x kw
  proof -
    from that(3) have "(Final_query_dq, x) \<in> set (stage_calls new)"
      by (auto simp: stage_calls_mem)
    with that(2) have "(Final_query_dq, x) \<in> set ?plan" by (meson set_mono_prefix subsetD)
    then have "x = ?rowdf" by (rule final_query_in_plan)
    with that(4) nv show False by simp
  qed
  from run show ?thesis
  proof (cases rule: wrapper_dataframeE)
    case (raised e0)
    from h[OF raised(1)] obtain new where new: "trace w' = trace w @ new"
      and pre: "prefix (stage_calls new) ?plan"
      by (auto simp: stage_plan_segs calls_within_def calls_are_def)
    from stage_outcome_run[OF raised(1), of Final_query_dq] new
    have out: "stage_outcome env st Final_query_dq new (Inl e0)
                 (stage_status (ctx w') Final_query_dq)
                 (start_time (ctx w') Final_query_dq) (end_time (ctx w') Final_query_dq)"
      by auto
    have a: "\<forall>x kw. Func_process Final_query_dq x kw \<notin> set new"
    proof (intro allI notI)
      fix x kw assume mem: "Func_process Final_query_dq x kw \<in> set new"
      then have ev: "Func_process Final_query_dq x kw \<in> set (stage_events Final_query_dq new)"
        by (simp add: stage_events_mem)
      from out have "call_ok st Final_query_dq x"
        unfolding stage_outcome_def using ev by auto
      with no_call[OF new pre mem] show False by simp
    qed
    have b: "e0 = SparkExpectationsMiscException ?msg \<and> last new = Set_start_time Final_query_dq"
      if "Set_start_time Final_query_dq \<in> set new"
      using stage_outcome_no_call[OF out a that] by simp
    from new a b raised(2) show ?thesis by (auto simp: wrap_exn_def)
  next
    case (returned l' w1)
    from h[OF returned(1)] obtain new where new: "trace w1 = trace w @ new"
      and calls: "stage_calls new = ?plan"
      by (auto simp: stage_plan_segs calls_are_def)
    have "(Final_query_dq, ?rowdf) \<in> set (stage_calls new)"
      using eligible_in_plan[OF el, of ?raw ?rowdf] by (simp add: calls)
    then obtain kw where mem: "Func_process Final_query_dq ?rowdf kw \<in> set new"
      unfolding stage_calls_mem by blast
    then have ev: "Func_process Final_query_dq ?rowdf kw \<in> set (stage_events Final_query_dq new)"
      by (simp add: stage_events_mem)
    from stage_outcome_run[OF returned(1), of Final_query_dq] new
    have out: "stage_outcome env st Final_query_dq new (Inr l')
                 (stage_status (ctx w1) Final_query_dq)
                 (start_time (ctx w1) Final_query_dq) (end_time (ctx w1) Final_query_dq)"
      by auto
    from out have "call_ok st Final_query_dq ?rowdf"
      unfolding stage_outcome_def using ev by auto
    with no_call[OF new _ mem] calls have False by simp
    then show ?thesis ..
  qed
qed

lemma ctx_log_event [simp]: "ctx (log_event e w) = ctx w"
  by (simp add: log_event_def)

lemma ctx_setters:
  "ctx (set_stage_status s v w) = (ctx w)\<lparr>stage_status := (stage_status (ctx w))(s := v)\<rparr>"
  "ctx (set_stage_start_time s w) = (ctx w)\<lparr>start_time := (start_time (ctx w))(s := Some (clock w))\<rparr>"
  "ctx (set_stage_end_time s w) = (ctx w)\<lparr>end_time := (end_time (ctx w))(s := Some (clock w))\<rparr>"
  "ctx (set_error_count n w) = (ctx w)\<lparr>error_count := n\<rparr>"
  "ctx (set_output_count n w) = (ctx w)\<lparr>output_count := n\<rparr>"
  by (simp_all add: set_stage_status_def set_stage_start_time_def set_stage_end_time_def
        set_error_count_def set_output_count_def log_event_def)

lemma quiet_run:
  assumes "\<forall>f\<in>set fs. quiet f" and "run_steps fs l w = (r, w')"
  shows "(\<exists>new. trace w' = trace w @ new \<and>
           Notify_on_exceeds_of_error_threshold \<notin> set new \<and> Set_end_time Row_dq \<notin> set new) \<and>
         input_count (ctx w') = input_count (ctx w) \<and>
         output_count (ctx w') = output_count (ctx w)"
  using assms
proof (induction fs arbitrary: l w)
  case Nil
  then show ?case by simp
next
  case (Cons f fs)
  obtain r1 w1 where f: "f l w = (r1, w1)" by (cases "f l w")
  from Cons.prems(1) have "quiet f" by simp
  with f obtain n1 where n1: "trace w1 = trace w @ n1"
      "Notify_on_exceeds_of_error_threshold \<notin> set n1" "Set_end_time Row_dq \<notin> set n1"
    and c1: "input_count (ctx w1) = input_count (ctx w)" "output_count (ctx w1) = output_count (ctx w)"
    unfolding quiet_def by blast
  show ?case
  proof (cases r1)
    case (Inl e)
    with Cons.prems(2) f have "w' = w1" by simp
    with n1 c1 show ?thesis by blast
  next
    case (Inr l1)
    with Cons.prems(2) f have "run_steps fs l1 w1 = (r, w')" by simp
    with Cons.IH[of l1 w1] Cons.prems(1)
    obtain n2 where n2: "trace w' = trace w1 @ n2"
      "Notify_on_exceeds_of_error_threshold \<notin> set n2" "Set_end_time Row_dq \<notin> set n2"
      and c2: "input_count (ctx w') = input_count (ctx w1)" "output_count (ctx w') = output_count (ctx w1)"
      by auto
    have "trace w' = trace w @ (n1 @ n2)"
      "Notify_on_exceeds_of_error_threshold \<notin> set (n1 @ n2)" "Set_end_time Row_dq \<notin> set (n1 @ n2)"
      using n1 n2 by simp_all
    with c1 c2 show ?thesis by metis
  qed
qed

lemma quiet_temp_table_step: "quiet (temp_table_step env st)"
  by (auto simp: quiet_def temp_table_step_def Let_def split: if_splits option.splits)

lemma quiet_write_final_table: "quiet (write_final_table env st)"
  by (auto simp: quiet_def write_final_table_def Let_def split: if_splits option.splits)

lemma quiet_source_agg_dq_stage: "quiet (source_agg_dq_stage env st)"
  by (auto simp: quiet_def source_agg_dq_stage_def call_func_process_def
           split: if_splits sum.splits)

lemma quiet_source_query_dq_stage: "quiet (source_query_dq_stage env st)"
  by (auto simp: quiet_def source_query_dq_stage_def call_func_process_def
           split: if_splits sum.splits)

lemma quiet_final_agg_dq_stage: "quiet (final_agg_dq_stage env st)"
  by (auto simp: quiet_def final_agg_dq_stage_def call_func_process_def
           split: if_splits sum.splits)

lemma quiet_final_query_dq_stage: "quiet (final_query_dq_stage env st)"
  by (auto simp: quiet_def final_query_dq_stage_def call_func_process_def Let_def
           split: if_splits sum.splits option.splits)

lemma quiet_steps_before_row: "\<forall>f\<in>set (steps_before env st Row_dq). quiet f"
  by (simp add: quiet_temp_table_step quiet_source_agg_dq_stage quiet_source_query_dq_stage)

lemma quiet_steps_after_row: "\<forall>f\<in>set (steps_after env st Row_dq). quiet f"
  by (simp add: quiet_write_final_table quiet_final_agg_dq_stage quiet_final_query_dq_stage)

lemma oblivious_write_final_table: "oblivious (write_final_table env st)"
  by (auto simp: oblivious_def write_final_table_def Let_def split: if_splits option.splits)

lemma oblivious_final_agg_dq_stage: "oblivious (final_agg_dq_stage env st)"
  by (auto simp: oblivious_def final_agg_dq_stage_def call_func_process_def ctx_setters
           split: if_splits sum.splits)

lemma oblivious_final_query_dq_stage: "oblivious (final_query_dq_stage env st)"
  by (auto simp: oblivious_def final_query_dq_stage_def call_func_process_def ctx_setters Let_def
           split: if_splits sum.splits option.splits)

lemma oblivious_run:
  assumes "\<forall>f\<in>set fs. oblivious f" and "ctx v = ctx w" and "clock v = clock w"
    and "run_steps fs l w = (r, w')"
  shows "\<exists>new v'. trace w' = trace w @ new \<and> run_steps fs l v = (r, v') \<and>
           trace v' = trace v @ new \<and> ctx v' = ctx w' \<and> clock v' = clock w'"
  using assms
proof (induction fs arbitrary: l w v)
  case Nil
  then show ?case by simp
next
  case (Cons f fs)
  obtain r1 w1 where f: "f l w = (r1, w1)" by (cases "f l w")
  from Cons.prems(1) have "oblivious f" by simp
  with f Cons.prems(2,3) obtain n1 v1 where s1: "trace w1 = trace w @ n1" "f l v = (r1, v1)"
      "trace v1 = trace v @ n1" "ctx v1 = ctx w1" "clock v1 = clock w1"
    unfolding oblivious_def by blast
  show ?case
  proof (cases r1)
    case (Inl e)
    with Cons.prems(4) f have "w' = w1" "r = r1" by simp_all
    with s1 Inl show ?thesis by auto
  next
    case (Inr l1)
    with Cons.prems(4) f have "run_steps fs l1 w1 = (r, w')" by simp
    from Cons.IH[OF _ s1(4,5) this] Cons.prems(1)
    obtain n2 v' where s2: "trace w' = trace w1 @ n2" "run_steps fs l1 v1 = (r, v')"
      "trace v' = trace v1 @ n2" "ctx v' = ctx w'" "clock v' = clock w'" by auto
    have "trace w' = trace w @ (n1 @ n2)" "run_steps (f # fs) l v = (r, v')"
      "trace v' = trace v @ (n1 @ n2)"
      using s1 s2 Inr by simp_all
    with s2 show ?thesis by blast
  qed
qed

lemma row_dq_stage_notify_iff:
  assumes "row_dq_stage env st l w = (r, w')"
  shows "\<exists>new. trace w' = trace w @ new \<and>
           (Notify_on_exceeds_of_error_threshold \<in> set new \<longleftrightarrow>
              Set_end_time Row_dq \<in> set new \<and>
              notification_on_error_drop_exceeds_threshold_breach st \<and>
              (\<exists>p. get_output_percentage env (input_count (ctx w')) (output_count (ctx w')) = Inr p \<and>
                   of_int (se_error_drop_threshold st) \<le> 100 - p))"
  using assms
  by (auto simp: row_dq_stage_def breach_check_def call_func_process_def Let_def
           split: if_splits sum.splits option.splits)

lemma row_dq_stage_without_flag:
  assumes "row_dq_stage env st l w = (r, w')" and "trace w' = trace w @ new"
    and "Notify_on_exceeds_of_error_threshold \<in> set new"
  shows "\<exists>e0 v'. new = e0 @ [Notify_on_exceeds_of_error_threshold] \<and>
           row_dq_stage env (st\<lparr>notification_on_error_drop_exceeds_threshold_breach := False\<rparr>) l w = (r, v') \<and>
           trace v' = trace w @ e0 \<and> ctx v' = ctx w' \<and> clock v' = clock w'"
  using assms
  by (auto simp: row_dq_stage_def breach_check_def call_func_process_def Let_def
           split: if_splits sum.splits option.splits)

lemma steps_without_flag:
  "steps_before env (st\<lparr>notification_on_error_drop_exceeds_threshold_breach := b\<rparr>) Row_dq =
     steps_before env st Row_dq"
  "steps_after env (st\<lparr>notification_on_error_drop_exceeds_threshold_breach := b\<rparr>) Row_dq =
     steps_after env st Row_dq"
  "init_world env (st\<lparr>notification_on_error_drop_exceeds_threshold_breach := b\<rparr>) d w =
     init_world env st d w"
  by (auto simp: fun_eq_iff temp_table_step_def source_agg_dq_stage_def source_query_dq_stage_def
        final_agg_dq_stage_def final_query_dq_stage_def write_final_table_def
        init_world_def reset_context_def Let_def split: option.splits)

lemma run_from_row:
  "run_steps (dq_steps env st) l w =
     (case run_steps (steps_before env st Row_dq) l w of
        (Inl e, w1) \<Rightarrow> (Inl e, w1)
      | (Inr l1, w1) \<Rightarrow>
          (case row_dq_stage env st l1 w1 of
             (Inl e, w2) \<Rightarrow> (Inl e, w2)
           | (Inr l2, w2) \<Rightarrow> run_steps (steps_after env st Row_dq) l2 w2))"
proof -
  have "run_steps (stage_step env st Row_dq # steps_after env st Row_dq) l1 w1 =
          (case row_dq_stage env st l1 w1 of
             (Inl e, w2) \<Rightarrow> (Inl e, w2)
           | (Inr l2, w2) \<Rightarrow> run_steps (steps_after env st Row_dq) l2 w2)" for l1 w1
    by (simp del: steps_after.simps)
  then show ?thesis
    unfolding dq_steps_split[of env st Row_dq] run_steps_append by presburger
qed

lemma breach_cond_cong:
  "input_count (ctx v) = input_count (ctx w) \<Longrightarrow> output_count (ctx v) = output_count (ctx w) \<Longrightarrow>
   breach_cond env st v = breach_cond env st w"
  by (simp add: breach_cond_def)

lemma notify_run:
  assumes run: "run_steps (dq_steps env st) l w = (r, w')"
  shows "\<exists>new. trace w' = trace w @ new \<and>
           (Notify_on_exceeds_of_error_threshold \<in> set new \<longleftrightarrow>
              Set_end_time Row_dq \<in> set new \<and> breach_cond env st w') \<and>
           (Notify_on_exceeds_of_error_threshold \<in> set new \<longrightarrow>
              (\<exists>a b v'. new = a @ [Notify_on_exceeds_of_error_threshold] @ b \<and>
                 run_steps (dq_steps env (st\<lparr>notification_on_error_drop_exceeds_threshold_breach := False\<rparr>)) l w = (r, v') \<and>
                 trace v' = trace w @ a @ b \<and> ctx v' = ctx w' \<and> clock v' = clock w'))"
proof -
  let ?N = "Notify_on_exceeds_of_error_threshold :: 'a event"
  let ?st0 = "st\<lparr>notification_on_error_drop_exceeds_threshold_breach := False\<rparr>"
  obtain r1 w1 where pre: "run_steps (steps_before env st Row_dq) l w = (r1, w1)"
    by (cases "run_steps (steps_before env st Row_dq) l w")
  from quiet_run[OF quiet_steps_before_row pre]
  obtain n1 where n1: "trace w1 = trace w @ n1" "?N \<notin> set n1" "Set_end_time Row_dq \<notin> set n1"
    by blast
  note split = run[unfolded run_from_row pre]
  show ?thesis
  proof (cases r1)
    case (Inl e)
    with split have "w' = w1" by simp
    with n1 show ?thesis by auto
  next
    case (Inr l1)
    obtain r2 w2 where row: "row_dq_stage env st l1 w1 = (r2, w2)"
      by (cases "row_dq_stage env st l1 w1")
    from row_dq_stage_notify_iff[OF row]
    obtain n2 where n2: "trace w2 = trace w1 @ n2"
      and iff2: "?N \<in> set n2 \<longleftrightarrow> Set_end_time Row_dq \<in> set n2 \<and> breach_cond env st w2"
      unfolding breach_cond_def by blast
    have r2_ok: "\<exists>l2. r2 = Inr l2" if "?N \<in> set n2"
      using row n2 that
      by (auto simp: row_dq_stage_def breach_check_def call_func_process_def Let_def
               split: if_splits sum.splits option.splits)
    show ?thesis
    proof (cases r2)
      case (Inl e)
      with split Inr row have eq: "w' = w2" "r = r2" by simp_all
      have tr: "trace w' = trace w @ (n1 @ n2)" using n1 n2 eq by simp
      have "?N \<notin> set n2" using r2_ok Inl by auto
      with n1 iff2 eq have "?N \<notin> set (n1 @ n2)"
        "\<not> (Set_end_time Row_dq \<in> set (n1 @ n2) \<and> breach_cond env st w')" by auto
      with tr show ?thesis by blast
    next
      case (Inr l2)
      with split \<open>r1 = Inr l1\<close> row
      have post: "run_steps (steps_after env st Row_dq) l2 w2 = (r, w')" by simp
      from quiet_run[OF quiet_steps_after_row post]
      obtain n3 where n3: "trace w' = trace w2 @ n3" "?N \<notin> set n3" "Set_end_time Row_dq \<notin> set n3"
        and c3: "input_count (ctx w') = input_count (ctx w2)" "output_count (ctx w') = output_count (ctx w2)"
        by blast
      have tr: "trace w' = trace w @ (n1 @ n2 @ n3)" using n1 n2 n3 by simp
      have mem: "?N \<in> set (n1 @ n2 @ n3) \<longleftrightarrow> ?N \<in> set n2"
        "Set_end_time Row_dq \<in> set (n1 @ n2 @ n3) \<longleftrightarrow> Set_end_time Row_dq \<in> set n2"
        using n1 n3 by auto
      have iff: "?N \<in> set (n1 @ n2 @ n3) \<longleftrightarrow>
                   Set_end_time Row_dq \<in> set (n1 @ n2 @ n3) \<and> breach_cond env st w'"
        unfolding mem iff2 breach_cond_cong[OF c3] ..
      have imp: "\<exists>a b v'. n1 @ n2 @ n3 = a @ [?N] @ b \<and>
                 run_steps (dq_steps env ?st0) l w = (r, v') \<and>
                 trace v' = trace w @ a @ b \<and> ctx v' = ctx w' \<and> clock v' = clock w'"
        if "?N \<in> set (n1 @ n2 @ n3)"
      proof -
        from that mem have "?N \<in> set n2" by simp
        from row_dq_stage_without_flag[OF row n2 this]
        obtain e0 v2 where e0: "n2 = e0 @ [?N]"
          and row0: "row_dq_stage env ?st0 l1 w1 = (r2, v2)"
          and v2: "trace v2 = trace w1 @ e0" "ctx v2 = ctx w2" "clock v2 = clock w2"
          by blast
        have obl: "\<forall>f\<in>set (steps_after env st Row_dq). oblivious f"
          by (simp add: oblivious_final_agg_dq_stage oblivious_final_query_dq_stage
                oblivious_write_final_table)
        from oblivious_run[OF obl v2(2,3) post]
        obtain m v' where m: "trace w' = trace w2 @ m"
          and post0: "run_steps (steps_after env st Row_dq) l2 v2 = (r, v')"
          and v': "trace v' = trace v2 @ m" "ctx v' = ctx w'" "clock v' = clock w'"
          by blast
        from m n3 have "m = n3" by simp
        have "run_steps (dq_steps env ?st0) l w =
                (case row_dq_stage env ?st0 l1 w1 of
                   (Inl e, w2) \<Rightarrow> (Inl e, w2)
                 | (Inr l2, w2) \<Rightarrow> run_steps (steps_after env st Row_dq) l2 w2)"
          unfolding run_from_row steps_without_flag pre \<open>r1 = Inr l1\<close> by simp
        with row0 Inr post0 have "run_steps (dq_steps env ?st0) l w = (r, v')"
          by (simp del: steps_after.simps)
        moreover have "n1 @ n2 @ n3 = (n1 @ e0) @ [?N] @ n3" using e0 by simp
        moreover have "trace v' = trace w @ (n1 @ e0) @ n3"
          using v'(1) v2(1) n1(1) \<open>m = n3\<close> by simp
        ultimately show ?thesis using v'(2,3) by blast
      qed
      from tr iff imp show ?thesis by blast
    qed
  qed
qed

text \<open>
  C4. The breach notification is sent exactly when the row stage ran to its end,
  breach notifications are enabled and 100 minus the output percentage is at least
  the run-level threshold. When it is sent, the same run with breach notifications
  switched off has the same result (the same value returned or the same exception),
  the same final context and the same events but for the notification: the breach
  raises nothing and stops nothing.
\<close>

theorem threshold_breach_notifies_and_continues:
  assumes "wrapper env st outcome w = (res, w')"
  shows "\<exists>new. trace w' = trace w @ new \<and>
           (Notify_on_exceeds_of_error_threshold \<in> set new \<longleftrightarrow>
              Set_end_time Row_dq \<in> set new \<and>
              notification_on_error_drop_exceeds_threshold_breach st \<and>
              (\<exists>p. get_output_percentage env (input_count (ctx w')) (output_count (ctx w')) = Inr p \<and>
                   of_int (se_error_drop_threshold st) \<le> 100 - p)) \<and>
           (Notify_on_exceeds_of_error_threshold \<in> set new \<longrightarrow>
              (\<exists>a b v'. new = a @ [Notify_on_exceeds_of_error_threshold] @ b \<and>
                 wrapper env (st\<lparr>notification_on_error_drop_exceeds_threshold_breach := False\<rparr>)
                   outcome w = (res, v') \<and>
                 trace v' = trace w @ a @ b \<and> ctx v' = ctx w' \<and> clock v' = clock w'))"
proof (cases "\<exists>d. outcome = Inr (DataFrame d)")
  case False
  with wrapper_not_dataframe[OF assms] have "trace w' = trace w @ []" by simp
  then show ?thesis by (metis empty_iff list.set(1))
next
  case True
  then obtain d where o: "outcome = Inr (DataFrame d)" by blast
  let ?N = "Notify_on_exceeds_of_error_threshold :: 'a event"
  let ?st0 = "st\<lparr>notification_on_error_drop_exceeds_threshold_breach := False\<rparr>"
  let ?l = "init_locals d (table_name (ctx w))"
  from assms[unfolded o] show ?thesis
  proof (cases rule: wrapper_dataframeE)
    case (raised e)
    from notify_run[OF raised(1)]
    obtain new where new: "trace w' = trace w @ new"
      and iff: "?N \<in> set new \<longleftrightarrow> Set_end_time Row_dq \<in> set new \<and> breach_cond env st w'"
      and imp: "?N \<in> set new \<longrightarrow>
              (\<exists>a b v'. new = a @ [?N] @ b \<and>
                 run_steps (dq_steps env ?st0) ?l (init_world env st d w) = (Inl e, v') \<and>
                 trace v' = trace w @ a @ b \<and> ctx v' = ctx w' \<and> clock v' = clock w')"
      by auto
    have "\<exists>a b v'. new = a @ [?N] @ b \<and> wrapper env ?st0 outcome w = (res, v') \<and>
                 trace v' = trace w @ a @ b \<and> ctx v' = ctx w' \<and> clock v' = clock w'"
      if "?N \<in> set new"
    proof -
      from imp that obtain a b v' where x: "new = a @ [?N] @ b"
        "run_steps (dq_steps env ?st0) ?l (init_world env st d w) = (Inl e, v')"
        "trace v' = trace w @ a @ b" "ctx v' = ctx w'" "clock v' = clock w'" by blast
      have "wrapper env ?st0 outcome w = (res, v')"
        unfolding o wrapper_dataframe steps_without_flag using x(2) raised(2) by simp
      with x show ?thesis by blast
    qed
    with new iff show ?thesis unfolding breach_cond_def by blast
  next
    case (returned l' w1)
    from notify_run[OF returned(1)]
    obtain new where new: "trace w1 = trace w @ new"
      and iff: "?N \<in> set new \<longleftrightarrow> Set_end_time Row_dq \<in> set new \<and> breach_cond env st w1"
      and imp: "?N \<in> set new \<longrightarrow>
              (\<exists>a b v'. new = a @ [?N] @ b \<and>
                 run_steps (dq_steps env ?st0) ?l (init_world env st d w) = (Inr l', v') \<and>
                 trace v' = trace w @ a @ b \<and> ctx v' = ctx w1 \<and> clock v' = clock w1)"
      by auto
    have tr: "trace w' = trace w @ (new @ [Clear_cache])" using new returned(3) by simp
    have bc: "breach_cond env st w' = breach_cond env st w1"
      using returned(3) by (simp add: breach_cond_def)
    have iff': "?N \<in> set (new @ [Clear_cache]) \<longleftrightarrow>
                 Set_end_time Row_dq \<in> set (new @ [Clear_cache]) \<and> breach_cond env st w'"
      using iff bc by simp
    have "\<exists>a b v'. new @ [Clear_cache] = a @ [?N] @ b \<and> wrapper env ?st0 outcome w = (res, v') \<and>
                 trace v' = trace w @ a @ b \<and> ctx v' = ctx w' \<and> clock v' = clock w'"
      if "?N \<in> set (new @ [Clear_cache])"
    proof -
      from that have "?N \<in> set new" by simp
      with imp obtain a b v1 where x: "new = a @ [?N] @ b"
        "run_steps (dq_steps env ?st0) ?l (init_world env st d w) = (Inr l', v1)"
        "trace v1 = trace w @ a @ b" "ctx v1 = ctx w1" "clock v1 = clock w1" by blast
      have "wrapper env ?st0 outcome w = (res, log_event Clear_cache v1)"
        unfolding o wrapper_dataframe steps_without_flag using x(2) returned(2) by simp
      moreover have "new @ [Clear_cache] = a @ [?N] @ (b @ [Clear_cache])" using x(1) by simp
      moreover have "trace (log_event Clear_cache v1) = trace w @ a @ (b @ [Clear_cache])"
        using x(3) by simp
      moreover have "ctx (log_event Clear_cache v1) = ctx w'" "clock (log_event Clear_cache v1) = clock w'"
        using x(4,5) returned(3) by simp_all
      ultimately show ?thesis by blast
    qed
    with tr iff' show ?thesis unfolding breach_cond_def by blast
  qed
qed

lemmas run_eval = wrapper_def wrapper_try_def dq_process_def dq_steps_def step_defs demo_defs
  demo_failing_env_def demo_no_row_df_env_def demo_rows_def Let_def

lemma demo_run_result:
  "fst (wrapper demo_env demo_settings (Inr (DataFrame demo_rows)) demo_world) = Inr (Some [1, 2, 4])"
  by (simp add: run_eval cong: prod.case_cong_weak)

lemma demo_plan:
  "stage_plan demo_settings
     (raw_dataset demo_env demo_settings (table_name (ctx demo_world)) demo_rows)
     (row_filtered_dataset demo_env
        (raw_dataset demo_env demo_settings (table_name (ctx demo_world)) demo_rows)) =
   [(Source_agg_dq, Some [1, 2, 30, 4]), (Source_query_dq, Some [1, 2, 30, 4]),
    (Row_dq, Some [1, 2, 30, 4]), (Final_agg_dq, Some [1, 2, 4]), (Final_query_dq, Some [1, 2, 4])]"
  by (simp add: stage_plan_def stage_order_def raw_dataset_def row_filtered_dataset_def demo_defs
        demo_rows_def)

theorem stages_run_when_enabled_in_order_witness:
  "fst (wrapper demo_env demo_settings (Inr (DataFrame demo_rows)) demo_world) = Inr (Some [1, 2, 4]) \<and>
   stage_calls (trace (snd (wrapper demo_env demo_settings (Inr (DataFrame demo_rows)) demo_world))) =
     [(Source_agg_dq, Some [1, 2, 30, 4]), (Source_query_dq, Some [1, 2, 30, 4]),
      (Row_dq, Some [1, 2, 30, 4]), (Final_agg_dq, Some [1, 2, 4]), (Final_query_dq, Some [1, 2, 4])] \<and>
   trace (snd (wrapper demo_env demo_settings (Inl (PyException ''boom'')) demo_world)) = []"
proof -
  let ?run = "wrapper demo_env demo_settings (Inr (DataFrame demo_rows)) demo_world"
  let ?runE = "wrapper demo_env demo_settings (Inl (PyException ''boom'')) demo_world"
  have run: "?run = (fst ?run, snd ?run)" and runE: "?runE = (fst ?runE, snd ?runE)" by simp_all
  have t0: "trace demo_world = []" by (simp add: demo_world_def)
  from stages_run_when_enabled_in_order[OF run] obtain new where
    "trace (snd ?run) = trace demo_world @ new"
    "(\<exists>v. fst ?run = Inr v) \<longrightarrow>
       stage_calls new =
         stage_plan demo_settings
           (raw_dataset demo_env demo_settings (table_name (ctx demo_world)) demo_rows)
           (row_filtered_dataset demo_env
              (raw_dataset demo_env demo_settings (table_name (ctx demo_world)) demo_rows))"
    by blast
  with demo_run_result demo_plan t0 have a: "fst ?run = Inr (Some [1, 2, 4])"
    "stage_calls (trace (snd ?run)) =
       [(Source_agg_dq, Some [1, 2, 30, 4]), (Source_query_dq, Some [1, 2, 30, 4]),
        (Row_dq, Some [1, 2, 30, 4]), (Final_agg_dq, Some [1, 2, 4]), (Final_query_dq, Some [1, 2, 4])]"
    by simp_all
  from stages_run_when_enabled_in_order[OF runE] t0 have "trace (snd ?runE) = []" by auto
  with a show ?thesis by blast
qed

text \<open>
  The claim as worded, a stage executes exactly when its flags hold in every run,
  fails on a run that an earlier stage cuts short: with every flag set and a
  source_query evaluation that raises, the row stage and the two final stages are
  eligible and never run.
\<close>

theorem stages_run_when_enabled_in_order_counterexample:
  "eligible demo_settings Row_dq \<and> eligible demo_settings Final_agg_dq \<and>
   eligible demo_settings Final_query_dq \<and>
   stage_calls (trace (snd (wrapper demo_failing_env demo_settings (Inr (DataFrame demo_rows)) demo_world))) =
     [(Source_agg_dq, Some [1, 2, 30, 4]), (Source_query_dq, Some [1, 2, 30, 4])] \<and>
   fst (wrapper demo_failing_env demo_settings (Inr (DataFrame demo_rows)) demo_world) =
     Inl (SparkExpectationsMiscException ''error occurred while processing spark expectations boom'')"
  by (simp add: run_eval cong: prod.case_cong_weak)



theorem row_dq_disabled_returns_none_witness:
  "fst (wrapper demo_env (demo_settings\<lparr>row_dq := False\<rparr>) (Inr (DataFrame demo_rows)) demo_world) = Inr None"
proof -
  let ?st = "demo_settings\<lparr>row_dq := False\<rparr>"
  let ?run = "wrapper demo_env ?st (Inr (DataFrame demo_rows)) demo_world"
  have run: "?run = (fst ?run, snd ?run)" by simp
  have off: "\<not> row_dq ?st" by simp
  have ev: "fst ?run = Inr None" by (simp add: run_eval cong: prod.case_cong_weak)
  from row_dq_disabled_returns_none[OF off run] ev show ?thesis by blast
qed



theorem final_query_without_view_is_configuration_error_witness:
  "fst (wrapper demo_no_row_df_env (demo_settings\<lparr>agg_dq := False\<rparr>) (Inr (DataFrame demo_rows)) demo_world) =
     Inl (SparkExpectationsMiscException
       ''error occurred while processing spark expectations final table view name is not supplied to run query dq'') \<and>
   stage_calls (trace (snd (wrapper demo_no_row_df_env (demo_settings\<lparr>agg_dq := False\<rparr>)
      (Inr (DataFrame demo_rows)) demo_world))) =
     [(Source_query_dq, Some [1, 2, 30, 4]), (Row_dq, Some [1, 2, 30, 4])]"
proof -
  let ?st = "demo_settings\<lparr>agg_dq := False\<rparr>"
  let ?run = "wrapper demo_no_row_df_env ?st (Inr (DataFrame demo_rows)) demo_world"
  have run: "?run = (fst ?run, snd ?run)" by simp
  have el: "eligible ?st Final_query_dq" by (simp add: demo_settings_def)
  have nv: "target_table_view ?st = [] \<or>
            row_filtered_dataset demo_no_row_df_env
              (raw_dataset demo_no_row_df_env ?st (table_name (ctx demo_world)) demo_rows) = None"
    by (simp add: row_filtered_dataset_def demo_no_row_df_env_def)
  have ev: "fst ?run =
     Inl (SparkExpectationsMiscException
       ''error occurred while processing spark expectations final table view name is not supplied to run query dq'')"
    "stage_calls (trace (snd ?run)) = [(Source_query_dq, Some [1, 2, 30, 4]), (Row_dq, Some [1, 2, 30, 4])]"
    by (simp_all add: run_eval cong: prod.case_cong_weak)
  from final_query_without_view_is_configuration_error[OF run el nv] ev show ?thesis by blast
qed

text \<open>
  The claim as worded, a configuration error is raised whenever the final_query
  stage is eligible and the row stage gave no dataset, fails when an earlier stage
  raises first: with every flag set and a row stage that returns no dataset, the
  final_agg stage is evaluated on the missing dataset, its error ends the run, and
  the final_query stage is never entered.
\<close>

theorem final_query_without_view_is_configuration_error_counterexample:
  "eligible demo_settings Final_query_dq \<and>
   row_filtered_dataset demo_no_row_df_env
     (raw_dataset demo_no_row_df_env demo_settings (table_name (ctx demo_world)) demo_rows) = None \<and>
   fst (wrapper demo_no_row_df_env demo_settings (Inr (DataFrame demo_rows)) demo_world) =
     Inl (SparkExpectationsMiscException
            ''error occurred while processing spark expectations no dataframe'') \<and>
   stage_calls (trace (snd (wrapper demo_no_row_df_env demo_settings (Inr (DataFrame demo_rows)) demo_world))) =
     [(Source_agg_dq, Some [1, 2, 30, 4]), (Source_query_dq, Some [1, 2, 30, 4]),
      (Row_dq, Some [1, 2, 30, 4]), (Final_agg_dq, None)] \<and>
   stage_events Final_query_dq
     (trace (snd (wrapper demo_no_row_df_env demo_settings (Inr (DataFrame demo_rows)) demo_world))) = []"
  by (simp add: run_eval row_filtered_dataset_def raw_dataset_def cong: prod.case_cong_weak)

lemma demo_run_notifies:
  "Notify_on_exceeds_of_error_threshold \<in>
     set (trace (snd (wrapper demo_env demo_settings (Inr (DataFrame demo_rows)) demo_world)))"
  by (simp add: run_eval cong: prod.case_cong_weak)

lemma demo_run_without_flag:
  "fst (wrapper demo_env
          (demo_settings\<lparr>notification_on_error_drop_exceeds_threshold_breach := False\<rparr>)
          (Inr (DataFrame demo_rows)) demo_world) = Inr (Some [1, 2, 4])"
  by (simp add: run_eval cong: prod.case_cong_weak)

lemma demo_run_below_threshold:
  "Notify_on_exceeds_of_error_threshold \<notin>
     set (trace (snd (wrapper demo_env (demo_settings\<lparr>se_error_drop_threshold := 26\<rparr>)
        (Inr (DataFrame demo_rows)) demo_world)))"
  by (simp add: run_eval cong: prod.case_cong_weak)

theorem threshold_breach_notifies_and_continues_witness:
  "Notify_on_exceeds_of_error_threshold \<in>
     set (trace (snd (wrapper demo_env demo_settings (Inr (DataFrame demo_rows)) demo_world))) \<and>
   fst (wrapper demo_env demo_settings (Inr (DataFrame demo_rows)) demo_world) = Inr (Some [1, 2, 4]) \<and>
   fst (wrapper demo_env
          (demo_settings\<lparr>notification_on_error_drop_exceeds_threshold_breach := False\<rparr>)
          (Inr (DataFrame demo_rows)) demo_world) = Inr (Some [1, 2, 4]) \<and>
   Notify_on_exceeds_of_error_threshold \<notin>
     set (trace (snd (wrapper demo_env (demo_settings\<lparr>se_error_drop_threshold := 26\<rparr>)
        (Inr (DataFrame demo_rows)) demo_world)))"
proof -
  let ?run = "wrapper demo_env demo_settings (Inr (DataFrame demo_rows)) demo_world"
  let ?run0 = "wrapper demo_env
          (demo_settings\<lparr>notification_on_error_drop_exceeds_threshold_breach := False\<rparr>)
          (Inr (DataFrame demo_rows)) demo_world"
  let ?run26 = "wrapper demo_env (demo_settings\<lparr>se_error_drop_threshold := 26\<rparr>)
        (Inr (DataFrame demo_rows)) demo_world"
  have run: "?run = (fst ?run, snd ?run)" and run26: "?run26 = (fst ?run26, snd ?run26)" by simp_all
  note ev = demo_run_notifies demo_run_result demo_run_without_flag demo_run_below_threshold
  from threshold_breach_notifies_and_continues[OF run]
       threshold_breach_notifies_and_continues[OF run26] ev
  show ?thesis by blast
qed

section \<open>The per-rule threshold list\<close>

lemma threshold_entries_returns:
  "inp \<noteq> 0 \<Longrightarrow> \<exists>es. threshold_entries counts inp rs = Inr es"
  by (induction rs) (auto simp: error_drop_percentage_def split: option.splits)

lemma threshold_entries_member:
  assumes "threshold_entries counts inp rs = Inr es" and "inp \<noteq> 0"
    and "r \<in> set rs" and "r_enable_error_drop_alert r" and "map_of counts (r_rule r) = Some k"
  shows "\<lparr>e_rule_name = r_rule r, e_action_if_failed = r_action_if_failed r,
          e_description = r_description r, e_rule_type = r_rule_type r,
          e_error_drop_threshold = r_error_drop_threshold r,
          e_error_drop_percentage =
            show_tenths (round_tenths (of_int k / of_int inp * 100))\<rparr> \<in> set es"
  using assms
proof (induction rs arbitrary: es)
  case Nil
  then show ?case by simp
next
  case (Cons a rs)
  from threshold_entries_returns[OF Cons.prems(2), of counts rs]
  obtain es' where es': "threshold_entries counts inp rs = Inr es'" by blast
  show ?case
  proof (cases "r = a")
    case True
    with Cons.prems es' show ?thesis
      by (auto simp: error_drop_percentage_def)
  next
    case False
    with Cons.prems have "r \<in> set rs" by simp
    from Cons.IH[OF es' Cons.prems(2) this Cons.prems(4,5)] Cons.prems(1) es'
    show ?thesis
      by (auto simp: error_drop_percentage_def split: if_splits option.splits)
  qed
qed

lemma threshold_entries_zero:
  assumes "r \<in> set rs" and "r_enable_error_drop_alert r" and "map_of counts (r_rule r) = Some k"
  shows "\<exists>e. threshold_entries counts 0 rs = Inl e"
  using assms
proof (induction rs)
  case Nil
  then show ?case by simp
next
  case (Cons a rs)
  show ?case
  proof (cases "r = a")
    case True
    with Cons.prems show ?thesis by (simp add: error_drop_percentage_def)
  next
    case False
    with Cons.prems have "r \<in> set rs" by simp
    from Cons.IH[OF this Cons.prems(2,3)] obtain e where "threshold_entries counts 0 rs = Inl e"
      by blast
    then show ?thesis
      by (auto simp: error_drop_percentage_def split: option.splits)
  qed
qed

lemma failed_row_counts_missing:
  assumes "x \<in> set sm" and "s_rule x = None \<or> s_failed_row_count x = None"
  shows "\<exists>e. failed_row_counts sm = Inl e"
  using assms
  by (induction sm) (auto split: option.splits sum.splits)

text \<open>
  The model reproduces the six cases of \<^verbatim>\<open>test_writer.py\<close>: the five of the
  parametrised test, each with an input count of 100, and the exception test.
\<close>

lemma test_generate_rules_exceeds_threshold:
  "generate_rules_exceeds_threshold
     (Some [test_rule ''rule1'' ''drop'' ''description1''])
     (Some [test_summary ''rule1'' 10]) 100 =
   Inr (Some [test_entry ''rule1'' ''drop'' ''description1'' ''10.0''])"
  "generate_rules_exceeds_threshold
     (Some [test_rule ''rule3'' ''ignore'' ''description3''])
     (Some [test_summary ''rule3'' 10]) 100 =
   Inr (Some [test_entry ''rule3'' ''ignore'' ''description3'' ''10.0''])"
  "generate_rules_exceeds_threshold
     (Some [test_rule ''rule4'' ''fail'' ''description4''])
     (Some [test_summary ''rule4'' 10]) 100 =
   Inr (Some [test_entry ''rule4'' ''fail'' ''description4'' ''10.0''])"
  "generate_rules_exceeds_threshold
     (Some [test_rule ''rule1'' ''drop'' ''description1'', test_rule ''rule2'' ''drop'' ''description2''])
     (Some [test_summary ''rule1'' 10, test_summary ''rule2'' 20]) 100 =
   Inr (Some [test_entry ''rule1'' ''drop'' ''description1'' ''10.0'',
              test_entry ''rule2'' ''drop'' ''description2'' ''20.0''])"
  "generate_rules_exceeds_threshold
     (Some [test_rule ''rule1'' ''drop'' ''description1'']) None 100 = Inr None"
  by (simp_all add: generate_rules_exceeds_threshold_def test_rule_def test_summary_def
        test_entry_def error_drop_percentage_def show_tenths_def round_tenths_def
        digit_char_def Let_def)

lemma test_generate_rules_exceeds_threshold_exception:
  "generate_rules_exceeds_threshold None
     (Some [\<lparr>s_rule = None, s_failed_row_count = None\<rparr>]) 100 =
   Inl (SparkExpectationsMiscException
          ''An error occurred while creating error threshold list : KeyError: rule'')"
  by (simp add: generate_rules_exceeds_threshold_def)

text \<open>
  The claim as worded asks for an entry, or else a hard error. The fifth case of the
  parametrised test shows a third outcome: a rule with
  \<^verbatim>\<open>enable_error_drop_alert = true\<close>, an input count of 100 and no summarised row
  result gives neither an entry nor an error; the collection stays \<^verbatim>\<open>None\<close>.
\<close>

theorem rules_exceeds_threshold_counterexample:
  "generate_rules_exceeds_threshold
     (Some [\<lparr>r_rule = ''rule1'', r_enable_error_drop_alert = True, r_action_if_failed = ''drop'',
             r_description = ''description1'', r_rule_type = ''row_dq'',
             r_error_drop_threshold = ''10''\<rparr>])
     None 100 = Inr None"
  by (simp add: generate_rules_exceeds_threshold_def)

text \<open>
  C7. Without a summarised row result nothing is produced and nothing is raised.
  With one: every rule with \<^verbatim>\<open>enable_error_drop_alert = true\<close> that has a
  failed-row count gets, when the input count is positive, an entry whose
  \<open>error_drop_percentage\<close> is failed_count / input_count * 100 to one decimal place,
  whatever the rule's own threshold; with an input count of 0 the computation
  raises \<^verbatim>\<open>SparkExpectationsMiscException\<close>; and it raises the same when the rule
  list is absent or a summarised entry lacks its rule name or its count.
\<close>

theorem rules_exceeds_threshold_entries:
  "generate_rules_exceeds_threshold rules None inp = Inr None
   \<and> (failed_row_counts sm = Inr counts \<and> map_of (rev counts) (r_rule r) = Some k \<and>
      r \<in> set rs \<and> r_enable_error_drop_alert r \<longrightarrow>
        (0 < inp \<longrightarrow>
          (\<exists>es. generate_rules_exceeds_threshold (Some rs) (Some sm) inp = Inr (Some es) \<and>
             \<lparr>e_rule_name = r_rule r, e_action_if_failed = r_action_if_failed r,
              e_description = r_description r, e_rule_type = r_rule_type r,
              e_error_drop_threshold = r_error_drop_threshold r,
              e_error_drop_percentage =
                show_tenths (round_tenths (of_int k / of_int inp * 100))\<rparr> \<in> set es))
        \<and> (\<exists>m. generate_rules_exceeds_threshold (Some rs) (Some sm) 0 =
                 Inl (SparkExpectationsMiscException m)))
   \<and> (\<exists>m. generate_rules_exceeds_threshold None (Some sm) inp =
            Inl (SparkExpectationsMiscException m))
   \<and> ((\<exists>x\<in>set bad. s_rule x = None \<or> s_failed_row_count x = None) \<longrightarrow>
        (\<exists>m. generate_rules_exceeds_threshold rules (Some bad) inp =
               Inl (SparkExpectationsMiscException m)))"
proof (intro conjI impI)
  show "generate_rules_exceeds_threshold rules None inp = Inr None"
    by (simp add: generate_rules_exceeds_threshold_def)
next
  assume a: "failed_row_counts sm = Inr counts \<and> map_of (rev counts) (r_rule r) = Some k \<and>
      r \<in> set rs \<and> r_enable_error_drop_alert r" and pos: "0 < inp"
  then have nz: "inp \<noteq> 0" by simp
  from a have a1: "failed_row_counts sm = Inr counts"
    and a2: "map_of (rev counts) (r_rule r) = Some k"
    and a3: "r \<in> set rs" and a4: "r_enable_error_drop_alert r" by simp_all
  from threshold_entries_returns[OF nz, of "rev counts" rs]
  obtain es where es: "threshold_entries (rev counts) inp rs = Inr es" by blast
  from threshold_entries_member[OF es nz a3 a4 a2] a1 es
  show "\<exists>es. generate_rules_exceeds_threshold (Some rs) (Some sm) inp = Inr (Some es) \<and>
             \<lparr>e_rule_name = r_rule r, e_action_if_failed = r_action_if_failed r,
              e_description = r_description r, e_rule_type = r_rule_type r,
              e_error_drop_threshold = r_error_drop_threshold r,
              e_error_drop_percentage =
                show_tenths (round_tenths (of_int k / of_int inp * 100))\<rparr> \<in> set es"
    by (simp add: generate_rules_exceeds_threshold_def)
next
  assume a: "failed_row_counts sm = Inr counts \<and> map_of (rev counts) (r_rule r) = Some k \<and>
      r \<in> set rs \<and> r_enable_error_drop_alert r"
  then have a1: "failed_row_counts sm = Inr counts"
    and a2: "map_of (rev counts) (r_rule r) = Some k"
    and a3: "r \<in> set rs" and a4: "r_enable_error_drop_alert r" by simp_all
  from threshold_entries_zero[OF a3 a4 a2] obtain e where
    "threshold_entries (rev counts) 0 rs = Inl e" by blast
  with a1 show "\<exists>m. generate_rules_exceeds_threshold (Some rs) (Some sm) 0 =
            Inl (SparkExpectationsMiscException m)"
    by (simp add: generate_rules_exceeds_threshold_def)
next
  show "\<exists>m. generate_rules_exceeds_threshold None (Some sm) inp =
          Inl (SparkExpectationsMiscException m)"
    by (cases "failed_row_counts sm") (simp_all add: generate_rules_exceeds_threshold_def)
next
  assume "\<exists>x\<in>set bad. s_rule x = None \<or> s_failed_row_count x = None"
  then obtain e where "failed_row_counts bad = Inl e"
    using failed_row_counts_missing by blast
  then show "\<exists>m. generate_rules_exceeds_threshold rules (Some bad) inp =
            Inl (SparkExpectationsMiscException m)"
    by (simp add: generate_rules_exceeds_threshold_def)
qed

theorem rules_exceeds_threshold_entries_witness:
  "(\<exists>es. generate_rules_exceeds_threshold
            (Some [test_rule ''rule1'' ''drop'' ''description1'',
                   test_rule ''rule2'' ''drop'' ''description2''])
            (Some [test_summary ''rule1'' 10, test_summary ''rule2'' 20]) 100 = Inr (Some es) \<and>
         test_entry ''rule2'' ''drop'' ''description2'' ''20.0'' \<in> set es)
   \<and> (\<exists>m. generate_rules_exceeds_threshold
            (Some [test_rule ''rule1'' ''drop'' ''description1'',
                   test_rule ''rule2'' ''drop'' ''description2''])
            (Some [test_summary ''rule1'' 10, test_summary ''rule2'' 20]) 0 =
          Inl (SparkExpectationsMiscException m))
   \<and> (\<exists>m. generate_rules_exceeds_threshold None
            (Some [\<lparr>s_rule = None, s_failed_row_count = None\<rparr>]) 100 =
          Inl (SparkExpectationsMiscException m))"
  using rules_exceeds_threshold_entries
          [of None 100 "[test_summary ''rule1'' 10, test_summary ''rule2'' 20]"
              "[(''rule1'', 10), (''rule2'', 20)]"
              "test_rule ''rule2'' ''drop'' ''description2''" 20
              "[test_rule ''rule1'' ''drop'' ''description1'',
                test_rule ''rule2'' ''drop'' ''description2'']"
              "[\<lparr>s_rule = None, s_failed_row_count = None\<rparr>]"]
  by (simp add: test_rule_def test_summary_def test_entry_def show_tenths_def
        round_tenths_def digit_char_def Let_def)

end
